theory Spec2Isabelle
  imports Main "HOL-Library.Sublist"
begin

section \<open>Data model\<close>

text \<open>
  A Python \<open>str\<close> is a sequence of Unicode code points, and \<open>len\<close> and slicing count
  code points; it is modelled as a list of code-point numbers, so that \<open>length\<close> and
  \<open>take\<close> count what Python counts.
\<close>

type_synonym pystr = "nat list"

definition ascii :: "string \<Rightarrow> pystr" where
  "ascii s = map of_char s"

text \<open>
  \<open>src/state/state.py\<close>, \<open>class Task(TypedDict)\<close>. A TypedDict is a plain dict at run
  time: \<open>plan_tasks\<close> creates its tasks without the key \<open>task_result\<close>, so that field is
  optional here (\<open>None\<close>: the key is absent).
\<close>

record task =
  task_id :: pystr
  task_description :: pystr
  task_result :: "pystr option"

text \<open>
  \<open>src/agents/websearch/state.py\<close>, \<open>class SearchResult(TypedDict)\<close>; \<open>content\<close> is
  \<open>None\<close> when \<open>execute_search\<close> builds the dict without that key.
\<close>

record search_result =
  query :: pystr
  title :: pystr
  url :: pystr
  snippet :: pystr
  content :: "pystr option"

section \<open>Reducers\<close>

text \<open>
  \<open>update_task(existing, new)\<close>. The test \<open>not new\<close> is true of the empty list and of
  Python's \<open>None\<close>; the second argument is an option to cover both.
\<close>

definition update_task :: "task list \<Rightarrow> task list option \<Rightarrow> task list" where
  "update_task existing new =
     (case new of
        None \<Rightarrow> existing
      | Some [] \<Rightarrow> existing
      | Some new' \<Rightarrow>
          (let new_task_ids = set (map task_id new');
               updated = filter (\<lambda>task. task_id task \<notin> new_task_ids) existing
           in updated @ new'))"

text \<open>
  \<open>merge_search_results(left, right)\<close>; both arguments may be \<open>None\<close>.
  \<open>left or []\<close> is \<open>left\<close> unless \<open>left\<close> is \<open>None\<close> or empty.
\<close>

definition merge_search_results ::
  "search_result list option \<Rightarrow> search_result list option \<Rightarrow> search_result list" where
  "merge_search_results left right =
     (case right of
        None \<Rightarrow> (case left of None \<Rightarrow> [] | Some l \<Rightarrow> l)
      | Some [] \<Rightarrow> []
      | Some r \<Rightarrow>
          (case left of
             None \<Rightarrow> r
           | Some [] \<Rightarrow> r
           | Some l \<Rightarrow> l @ r))"


section \<open>Errors, logging and messages\<close>

text \<open>
  Every \<open>raise\<close> of the source is a value. \<open>RuntimeError\<close> is what a bare \<open>raise\<close>
  with no active exception produces; \<open>KeyError\<close> and \<open>IndexError\<close> come from \<open>d[k]\<close> and
  \<open>xs[0]\<close>; the other three are failures of the external collaborators (language
  model, search provider, page loader).
\<close>

datatype error =
    RuntimeError | KeyError | IndexError
  | ModelError | ProviderError | FetchError | TimeoutError

datatype level = WARNING | ERROR

text \<open>A log entry: the level and the name of the function that logged.\<close>

type_synonym log_entry = "level \<times> string"

type_synonym 'a outcome = "log_entry list \<times> (error + 'a)"

datatype message = SystemMessage pystr | HumanMessage pystr | AIMessage pystr

fun message_content :: "message \<Rightarrow> pystr" where
  "message_content (SystemMessage c) = c"
| "message_content (HumanMessage c) = c"
| "message_content (AIMessage c) = c"

section \<open>State of the web-search sub-graph\<close>

text \<open>
  \<open>class BaseState(TypedDict)\<close> and \<open>class WebSearchState(BaseState, PrivateState)\<close>.
  A field read with \<open>state.get(key, default)\<close> is an option (\<open>None\<close>: the key is not
  in the state); the three fields with a reducer always hold a list.
\<close>

record base_state =
  messages :: "message list"
  tasks :: "task list"
  final_answer :: "pystr option"

record websearch_state = base_state +
  st_task_id :: "pystr option"
  st_task_description :: "pystr option"
  st_task_result :: "pystr option"
  search_queries :: "pystr list"
  search_results :: "search_result list"
  feedback :: "pystr option"
  attempt :: "int option"
  completed :: "bool option"

text \<open>
  The \<open>update\<close> dict of a \<open>Command\<close> issued by a node of the sub-graph: \<open>None\<close> is a key
  that the dict does not have. \<open>feedback\<close> may be written as Python's \<open>None\<close>, hence
  the nested option.
\<close>

record ws_update =
  u_task_result :: "pystr option"
  u_search_queries :: "pystr list option"
  u_search_results :: "search_result list option"
  u_feedback :: "pystr option option"
  u_attempt :: "int option"
  u_completed :: "bool option"
  u_tasks :: "task list option"

definition no_update :: ws_update where
  "no_update = \<lparr>u_task_result = None, u_search_queries = None, u_search_results = None,
     u_feedback = None, u_attempt = None, u_completed = None, u_tasks = None\<rparr>"

text \<open>
  How the graph runtime folds an update into the state: a key with a declared reducer
  (\<open>operator.add\<close> for \<open>search_queries\<close>, \<open>merge_search_results\<close> for \<open>search_results\<close>,
  \<open>update_task\<close> for \<open>tasks\<close>) is combined with the old value, every other key is
  overwritten, and a key absent from the update keeps its value.
\<close>

definition apply_update :: "websearch_state \<Rightarrow> ws_update \<Rightarrow> websearch_state" where
  "apply_update st u =
     st\<lparr> st_task_result := (case u_task_result u of None \<Rightarrow> st_task_result st | Some r \<Rightarrow> Some r),
         search_queries := (case u_search_queries u of None \<Rightarrow> search_queries st
                            | Some qs \<Rightarrow> search_queries st @ qs),
         search_results := (case u_search_results u of None \<Rightarrow> search_results st
                            | Some rs \<Rightarrow> merge_search_results (Some (search_results st)) (Some rs)),
         feedback := (case u_feedback u of None \<Rightarrow> feedback st | Some f \<Rightarrow> f),
         attempt := (case u_attempt u of None \<Rightarrow> attempt st | Some a \<Rightarrow> Some a),
         completed := (case u_completed u of None \<Rightarrow> completed st | Some c \<Rightarrow> Some c),
         tasks := (case u_tasks u of None \<Rightarrow> tasks st
                   | Some ts \<Rightarrow> update_task (tasks st) (Some ts)) \<rparr>"

text \<open>Nodes of the sub-graph (\<open>src/agents/websearch/graph.py\<close>) and the framework's \<open>END\<close>.\<close>

datatype ws_node =
    Generate_search_queries | Execute_search | Generate_task_result
  | Evaluate_task_result | END

text \<open>
  The \<open>goto\<close> of a \<open>Command\<close>: a node name, or a list of \<open>Send("execute_search", arg)\<close>;
  the argument dict of such a \<open>Send\<close> is reduced to its \<open>"query"\<close> entry, if it has one.
\<close>

type_synonym search_arg = "pystr option"

datatype ws_target = Goto ws_node | Sends "search_arg list"

record ws_command =
  update :: ws_update
  goto :: ws_target


section \<open>Nodes of the web-search sub-graph\<close>

text \<open>
  The language model, the search provider and the page loader are external: each is a
  function that returns a value or an error, and the nodes are parametrised by them. A
  prompt of a sub-graph node is built from the state (and the current date) alone, so
  the model is given the state; the fixed system message is part of the function.
\<close>

definition get_task_id :: "websearch_state \<Rightarrow> pystr" where
  "get_task_id state = (case st_task_id state of None \<Rightarrow> [] | Some v \<Rightarrow> v)"

definition get_task_description :: "websearch_state \<Rightarrow> pystr" where
  "get_task_description state = (case st_task_description state of None \<Rightarrow> [] | Some v \<Rightarrow> v)"

definition get_task_result :: "websearch_state \<Rightarrow> pystr" where
  "get_task_result state = (case st_task_result state of None \<Rightarrow> [] | Some v \<Rightarrow> v)"

definition get_attempt :: "websearch_state \<Rightarrow> int" where
  "get_attempt state = (case attempt state of None \<Rightarrow> 0 | Some v \<Rightarrow> v)"

subsection \<open>\<open>generate_search_queries\<close>\<close>

text \<open>
  The model function returns the \<open>queries\<close> of the structured reply; a reply that the
  schema rejects (more than two queries) is an error of the call. The literal below is
  written to \<open>task_result\<close> when the model produces no query.
\<close>

definition no_queries_result :: pystr where
  "no_queries_result =
     [36969, 20999, 12394, 26908, 32034, 12463, 12456, 12522, 12434, 29983, 25104, 12391,
      12365, 12414, 12379, 12435, 12391, 12375, 12383, 12290]"

definition generate_search_queries ::
  "(websearch_state \<Rightarrow> error + pystr list) \<Rightarrow> websearch_state \<Rightarrow> ws_command outcome" where
  "generate_search_queries model state =
     (case model state of
        Inl e \<Rightarrow> ([(ERROR, ''generate_search_queries'')], Inl e)
      | Inr queries \<Rightarrow>
          if queries = [] then
            ([(WARNING, ''generate_search_queries'')],
             Inr \<lparr>update = no_update\<lparr>u_task_result := Some no_queries_result\<rparr>,
                  goto = Goto Evaluate_task_result\<rparr>)
          else
            ([], Inr \<lparr>update = no_update\<lparr>u_search_queries := Some queries\<rparr>,
                      goto = Sends (map Some queries)\<rparr>))"

subsection \<open>\<open>execute_search\<close>\<close>

text \<open>
  Python's \<open>str.isspace\<close>, which is also what \<open>\s\<close> matches in a \<open>str\<close> pattern and what
  \<open>str.strip()\<close> removes.
\<close>

definition is_space :: "nat \<Rightarrow> bool" where
  "is_space c \<longleftrightarrow>
     (9 \<le> c \<and> c \<le> 13) \<or> (28 \<le> c \<and> c \<le> 32) \<or> c = 133 \<or> c = 160 \<or> c = 5760 \<or>
     (8192 \<le> c \<and> c \<le> 8202) \<or> c = 8232 \<or> c = 8233 \<or> c = 8239 \<or> c = 8287 \<or> c = 12288"

text \<open>
  \<open>re.sub(r'\n\s*\n+', '\n\n', text)\<close>, scanning from the left. A match starts at a
  newline (code point 10) that is followed by a run of white space holding another
  newline; the greedy \<open>\s*\<close> then gives back characters until \<open>\n+\<close> can match, so the
  match ends at the last newline of that run, and scanning resumes behind it.
\<close>

function re_sub_blank_lines :: "pystr \<Rightarrow> pystr" where
  "re_sub_blank_lines [] = []"
| "re_sub_blank_lines (c # cs) =
     (if c = 10 \<and> 10 \<in> set (takeWhile is_space cs)
      then [10, 10] @
           re_sub_blank_lines
             (rev (takeWhile (\<lambda>x. x \<noteq> 10) (rev (takeWhile is_space cs))) @ dropWhile is_space cs)
      else c # re_sub_blank_lines cs)"
  by pat_completeness auto

termination re_sub_blank_lines
proof (relation "measure length")
  fix c :: nat and cs :: pystr
  have "length (takeWhile (\<lambda>x. x \<noteq> 10) (rev (takeWhile is_space cs)))
          \<le> length (rev (takeWhile is_space cs))"
    by (rule length_takeWhile_le)
  moreover have "length (takeWhile is_space cs) + length (dropWhile is_space cs) = length cs"
    by (metis length_append takeWhile_dropWhile_id)
  ultimately show
    "(rev (takeWhile (\<lambda>x. x \<noteq> 10) (rev (takeWhile is_space cs))) @ dropWhile is_space cs, c # cs)
       \<in> measure length"
    by simp
qed simp_all

text \<open>\<open>text.split(sep)\<close> for a one-character separator.\<close>

fun split :: "nat \<Rightarrow> pystr \<Rightarrow> pystr list" where
  "split sep [] = [[]]"
| "split sep (c # cs) =
     (if c = sep then [] # split sep cs
      else (case split sep cs of [] \<Rightarrow> [[c]] | l # ls \<Rightarrow> (c # l) # ls))"

definition strip :: "pystr \<Rightarrow> pystr" where
  "strip line = rev (dropWhile is_space (rev (dropWhile is_space line)))"

text \<open>\<open>sep.join(lines)\<close>.\<close>

fun join :: "pystr \<Rightarrow> pystr list \<Rightarrow> pystr" where
  "join sep [] = []"
| "join sep [l] = l"
| "join sep (l # l' # ls) = l @ sep @ join sep (l' # ls)"


text \<open>The nested \<open>clean_text\<close> of \<open>execute_search\<close>.\<close>

definition clean_text :: "pystr \<Rightarrow> pystr" where
  "clean_text text =
     (let text' = re_sub_blank_lines text;
          lines = map strip (split 10 text');
          lines' = filter (\<lambda>line. line \<noteq> []) lines
      in join [10] lines')"

text \<open>
  One entry of the list that the search provider returns: a dict read with
  \<open>result['link']\<close>, \<open>result['title']\<close> (a \<open>KeyError\<close> when the key is missing) and
  \<open>result.get('snippet', '')\<close>.
\<close>

record provider_result =
  pr_link :: "pystr option"
  pr_title :: "pystr option"
  pr_snippet :: "pystr option"

text \<open>
  The provider takes the query and the number of results asked for; the page loader
  takes the URL and the timeout in seconds that \<open>asyncio.wait_for\<close> is given, and
  returns the \<open>page_content\<close> of the documents it loaded.
\<close>

type_synonym search_provider = "pystr \<Rightarrow> nat \<Rightarrow> error + provider_result list"
type_synonym page_loader = "pystr \<Rightarrow> nat \<Rightarrow> error + pystr list"

definition num_results :: nat where
  "num_results = 2"

definition load_timeout :: nat where
  "load_timeout = 15"

text \<open>
  The body of the inner \<open>try\<close>: load the page under the timeout, take
  \<open>docs[0].page_content\<close> (an \<open>IndexError\<close> on an empty list) and clean it.
\<close>

definition load_content :: "page_loader \<Rightarrow> pystr \<Rightarrow> error + pystr" where
  "load_content loader url' =
     (case loader url' load_timeout of
        Inl e \<Rightarrow> Inl e
      | Inr docs \<Rightarrow>
          (case docs of
             [] \<Rightarrow> Inl IndexError
           | raw_content # _ \<Rightarrow> Inr (clean_text raw_content)))"

text \<open>
  The loop \<open>for result in results\<close>, with the list \<open>search_results\<close> built so far and the
  log as accumulators. A missing \<open>link\<close> or \<open>title\<close> raises outside the inner \<open>try\<close> and
  leaves the loop.
\<close>

fun search_loop ::
  "page_loader \<Rightarrow> pystr \<Rightarrow> provider_result list \<Rightarrow> log_entry list \<Rightarrow> search_result list
     \<Rightarrow> log_entry list \<times> (error + search_result list)" where
  "search_loop loader q [] logs acc = (logs, Inr acc)"
| "search_loop loader q (result # results) logs acc =
     (case pr_link result of
        None \<Rightarrow> (logs, Inl KeyError)
      | Some url' \<Rightarrow>
          (case pr_title result of
             None \<Rightarrow> (logs, Inl KeyError)
           | Some title' \<Rightarrow>
               (let snippet' = (case pr_snippet result of None \<Rightarrow> [] | Some s \<Rightarrow> s) in
                case load_content loader url' of
                  Inr content' \<Rightarrow>
                    search_loop loader q results logs
                      (acc @ [\<lparr>query = q, title = title', url = url', snippet = snippet',
                               content = Some (take 2500 content')\<rparr>])
                | Inl e \<Rightarrow>
                    search_loop loader q results (logs @ [(WARNING, ''execute_search'')])
                      (acc @ [\<lparr>query = q, title = title', url = url', snippet = snippet',
                               content = None\<rparr>]))))"

definition search_results_command :: "search_result list \<Rightarrow> ws_command" where
  "search_results_command rs =
     \<lparr>update = no_update\<lparr>u_search_results := Some rs\<rparr>, goto = Goto Generate_task_result\<rparr>"

definition execute_search :: "search_provider \<Rightarrow> page_loader \<Rightarrow> search_arg \<Rightarrow> ws_command outcome" where
  "execute_search provider loader arg =
     (let q = (case arg of None \<Rightarrow> [] | Some v \<Rightarrow> v) in
      if q = [] then ([], Inr (search_results_command []))
      else
        (case provider q num_results of
           Inl e \<Rightarrow> ([(ERROR, ''execute_search'')], Inr (search_results_command []))
         | Inr results \<Rightarrow>
             if results = [] then ([], Inr (search_results_command []))
             else
               (case search_loop loader q results [] [] of
                  (logs, Inl e) \<Rightarrow>
                    (logs @ [(ERROR, ''execute_search'')], Inr (search_results_command []))
                | (logs, Inr rs) \<Rightarrow> (logs, Inr (search_results_command rs)))))"

subsection \<open>\<open>generate_task_result\<close>\<close>

definition generate_task_result ::
  "(websearch_state \<Rightarrow> error + pystr) \<Rightarrow> websearch_state \<Rightarrow> ws_command outcome" where
  "generate_task_result model state =
     (case model state of
        Inl e \<Rightarrow> ([(ERROR, ''generate_task_result'')], Inl e)
      | Inr answer \<Rightarrow>
          ([], Inr \<lparr>update = no_update\<lparr>u_task_result := Some answer\<rparr>,
                    goto = Goto Evaluate_task_result\<rparr>))"

subsection \<open>\<open>evaluate_task_result\<close>\<close>

datatype need = Need_search | Need_generate

text \<open>\<open>class TaskEvaluation(BaseModel)\<close>, the structured reply of the evaluator model.\<close>

record task_evaluation =
  is_satisfactory :: bool
  need :: "need option"
  reason :: pystr
  ev_feedback :: "pystr option"

definition evaluate_task_result ::
  "(websearch_state \<Rightarrow> error + task_evaluation) \<Rightarrow> websearch_state \<Rightarrow> ws_command outcome" where
  "evaluate_task_result model state =
     (let attempt' = get_attempt state + 1 in
      case model state of
        Inl e \<Rightarrow> ([(ERROR, ''evaluate_task_result'')], Inl e)
      | Inr evaluation \<Rightarrow>
          if is_satisfactory evaluation \<or> attempt' \<ge> 2 then
            ([], Inr \<lparr>update = no_update\<lparr>
                        u_attempt := Some attempt',
                        u_completed := Some True,
                        u_tasks := Some [\<lparr>task_id = get_task_id state,
                                          task_description = get_task_description state,
                                          task_result = Some (get_task_result state)\<rparr>]\<rparr>,
                      goto = Goto END\<rparr>)
          else if need evaluation = Some Need_search then
            ([], Inr \<lparr>update = no_update\<lparr>
                        u_attempt := Some attempt',
                        u_search_results := Some [],
                        u_feedback := Some (ev_feedback evaluation)\<rparr>,
                      goto = Goto Generate_search_queries\<rparr>)
          else if need evaluation = Some Need_generate then
            ([], Inr \<lparr>update = no_update\<lparr>
                        u_attempt := Some attempt',
                        u_feedback := Some (ev_feedback evaluation)\<rparr>,
                      goto = Goto Generate_task_result\<rparr>)
          else
            ([(WARNING, ''evaluate_task_result'')],
             Inr \<lparr>update = no_update\<lparr>
                        u_attempt := Some attempt',
                        u_completed := Some True,
                        u_tasks := Some [\<lparr>task_id = get_task_id state,
                                          task_description = get_task_description state,
                                          task_result = Some (get_task_result state)\<rparr>]\<rparr>,
                  goto = Goto END\<rparr>))"


section \<open>Running the web-search sub-graph\<close>

text \<open>
  The sub-graph has no static edge besides \<open>START \<rightarrow> generate_search_queries\<close>: every
  node names its successor in the \<open>goto\<close> of its \<open>Command\<close>. One step runs the nodes
  that are due, folds their updates into the state with the reducers and moves to the
  target they name; an exception ends the run. The branches of a fan-out do not read
  the state, and their updates are applied in the order of the \<open>Send\<close> list; all of them
  name \<open>generate_task_result\<close>, which then runs once.
\<close>

record collaborators =
  queries_model :: "websearch_state \<Rightarrow> error + pystr list"
  answer_model :: "websearch_state \<Rightarrow> error + pystr"
  evaluation_model :: "websearch_state \<Rightarrow> error + task_evaluation"
  provider :: search_provider
  loader :: page_loader

datatype step_result = Halt "error + websearch_state" | Next ws_target websearch_state

definition follow :: "websearch_state \<Rightarrow> ws_command outcome \<Rightarrow> step_result" where
  "follow st out =
     (case snd out of
        Inl e \<Rightarrow> Halt (Inl e)
      | Inr cmd \<Rightarrow> Next (goto cmd) (apply_update st (update cmd)))"

fun run_sends :: "collaborators \<Rightarrow> search_arg list \<Rightarrow> websearch_state \<Rightarrow> error + websearch_state" where
  "run_sends env [] st = Inr st"
| "run_sends env (arg # args) st =
     (case snd (execute_search (provider env) (loader env) arg) of
        Inl e \<Rightarrow> Inl e
      | Inr cmd \<Rightarrow> run_sends env args (apply_update st (update cmd)))"

definition fan_out :: "collaborators \<Rightarrow> search_arg list \<Rightarrow> websearch_state \<Rightarrow> step_result" where
  "fan_out env args st =
     (if args = [] then Halt (Inr st)
      else (case run_sends env args st of
              Inl e \<Rightarrow> Halt (Inl e)
            | Inr st' \<Rightarrow> Next (Goto Generate_task_result) st'))"

fun step :: "collaborators \<Rightarrow> ws_target \<Rightarrow> websearch_state \<Rightarrow> step_result" where
  "step env (Goto Generate_search_queries) st =
     follow st (generate_search_queries (queries_model env) st)"
| "step env (Sends args) st = fan_out env args st"
| "step env (Goto Execute_search) st = fan_out env [None] st"
| "step env (Goto Generate_task_result) st =
     follow st (generate_task_result (answer_model env) st)"
| "step env (Goto Evaluate_task_result) st =
     follow st (evaluate_task_result (evaluation_model env) st)"
| "step env (Goto END) st = Halt (Inr st)"

fun rank :: "ws_target \<Rightarrow> nat" where
  "rank (Goto Generate_search_queries) = 4"
| "rank (Sends args) = 3"
| "rank (Goto Execute_search) = 3"
| "rank (Goto Generate_task_result) = 2"
| "rank (Goto Evaluate_task_result) = 1"
| "rank (Goto END) = 0"

text \<open>
  The run from a target and a state: the configurations visited, in order, and the
  outcome (the final state, or the exception that ended the run).
\<close>

function run_websearch ::
  "collaborators \<Rightarrow> ws_target \<Rightarrow> websearch_state
     \<Rightarrow> (ws_target \<times> websearch_state) list \<times> (error + websearch_state)" where
  "run_websearch env target st =
     (case step env target st of
        Halt r \<Rightarrow> ([(target, st)], r)
      | Next target' st' \<Rightarrow>
          (case run_websearch env target' st' of
             (trace, r) \<Rightarrow> ((target, st) # trace, r)))"
  by pat_completeness auto



termination run_websearch
proof (relation "measures [\<lambda>(env, target, st). nat (2 - get_attempt st), \<lambda>(env, target, st). rank target]")
  show "wf (measures [\<lambda>(env, target, st). nat (2 - get_attempt st), \<lambda>(env, target, st). rank target])"
    by simp
next
  fix env :: collaborators and target st target' st'
  assume stp: "step env target st = Next target' st'"
  have es: "\<exists>rs. snd (execute_search p l a) = Inr (search_results_command rs)" for p l a
    by (auto simp: execute_search_def Let_def split: sum.split prod.split)
  have au: "get_attempt (apply_update s (update (search_results_command rs))) = get_attempt s"
    for s rs
    by (simp add: search_results_command_def apply_update_def get_attempt_def no_update_def)
  have sends: "get_attempt s' = get_attempt s" if "run_sends env args s = Inr s'" for args s s'
    using that
  proof (induction args arbitrary: s)
    case Nil
    then show ?case by simp
  next
    case (Cons a args)
    obtain rs where "snd (execute_search (provider env) (loader env) a) = Inr (search_results_command rs)"
      using es by blast
    with Cons show ?case by (simp add: au)
  qed
  have fan: "get_attempt s' = get_attempt s \<and> rank t' = 2"
    if "fan_out env args s = Next t' s'" for args s t' s'
    using that sends by (auto simp: fan_out_def split: if_splits sum.splits)
  show "((env, target', st'), (env, target, st))
          \<in> measures [\<lambda>(env, target, st). nat (2 - get_attempt st), \<lambda>(env, target, st). rank target]"
  proof (cases target)
    case (Sends args)
    with stp fan show ?thesis by auto
  next
    case (Goto n)
    show ?thesis
    proof (cases n)
      case Generate_search_queries
      with Goto stp show ?thesis
        by (auto simp: follow_def generate_search_queries_def apply_update_def get_attempt_def
              no_update_def split: sum.splits if_splits)
    next
      case Execute_search
      with Goto stp fan show ?thesis by auto
    next
      case Generate_task_result
      with Goto stp show ?thesis
        by (auto simp: follow_def generate_task_result_def apply_update_def get_attempt_def
              no_update_def split: sum.splits if_splits)
    next
      case Evaluate_task_result
      with Goto stp show ?thesis
        by (auto simp: follow_def evaluate_task_result_def apply_update_def get_attempt_def
              no_update_def Let_def split: sum.splits if_splits)
    next
      case END
      with Goto stp show ?thesis by simp
    qed
  qed
qed


text \<open>
  The equation of \<open>run_websearch\<close> rewrites the function in terms of itself; it is
  applied by hand where a run is unfolded.
\<close>

declare run_websearch.simps [simp del]

section \<open>The planner\<close>

text \<open>\<open>str(n)\<close> for a non-negative integer: its decimal digits, code points 48 to 57.\<close>

fun str :: "nat \<Rightarrow> pystr" where
  "str n = (if n < 10 then [48 + n] else str (n div 10) @ [48 + n mod 10])"

text \<open>
  \<open>class TaskPlan(BaseModel)\<close>, the structured reply of the planning model; its inner
  \<open>Task\<close> has the one field \<open>task_description\<close> and is modelled by that string.
\<close>

record task_plan =
  plan_tasks_of :: "pystr list"
  plan_reason :: pystr

text \<open>The argument dict of a \<open>Send("websearch", ...)\<close>.\<close>

record websearch_input =
  in_task_id :: pystr
  in_task_description :: pystr
  in_attempt :: int
  in_completed :: bool

datatype planner_target = Planner_END | Websearch_sends "websearch_input list"

record planner_update =
  p_messages :: "message list option"
  p_tasks :: "task list option"
  p_final_answer :: "pystr option"

record planner_command =
  p_update :: planner_update
  p_goto :: planner_target

text \<open>
  \<open>plan_tasks\<close>. The model is called on the message history (behind the fixed system
  message). A bare \<open>raise\<close> with no active exception raises \<open>RuntimeError\<close>; it is caught
  by the surrounding \<open>except\<close>, logged a second time and raised again.
\<close>

definition plan_tasks ::
  "(message list \<Rightarrow> error + task_plan) \<Rightarrow> base_state \<Rightarrow> planner_command outcome" where
  "plan_tasks model state =
     (case model (messages state) of
        Inl e \<Rightarrow> ([(ERROR, ''plan_tasks'')], Inl e)
      | Inr plan \<Rightarrow>
          if plan_tasks_of plan = [] then
            ([(ERROR, ''plan_tasks''), (ERROR, ''plan_tasks'')], Inl RuntimeError)
          else
            (let sends = map (\<lambda>(idx, d). \<lparr>in_task_id = str idx, in_task_description = d,
                                          in_attempt = 0, in_completed = False\<rparr>)
                           (enumerate 0 (plan_tasks_of plan));
                 initial_tasks = map (\<lambda>(idx, d). \<lparr>task_id = str idx, task_description = d,
                                                  task_result = None\<rparr>)
                                   (enumerate 0 (plan_tasks_of plan))
             in ([], Inr \<lparr>p_update = \<lparr>p_messages = None, p_tasks = Some initial_tasks,
                                        p_final_answer = None\<rparr>,
                          p_goto = Websearch_sends sends\<rparr>)))"

text \<open>
  One element of the list comprehension of \<open>generate_final_answer\<close>, the f-string
  over \<open>idx + 1\<close>, \<open>task['task_description']\<close> and \<open>task['task_result']\<close>; the last is a
  \<open>KeyError\<close> for a task without that key.
\<close>

definition format_task :: "nat \<times> task \<Rightarrow> error + pystr" where
  "format_task p =
     (case p of (idx, task) \<Rightarrow>
        (case task_result task of
           None \<Rightarrow> Inl KeyError
         | Some r \<Rightarrow>
             Inr ([12304, 12479, 12473, 12463] @ str (idx + 1) @ [12305] @ task_description task
                    @ [10, 32080, 26524, 58, 32] @ r)))"

text \<open>A list comprehension whose elements may raise: the first error ends it.\<close>

fun collect :: "(error + 'a) list \<Rightarrow> error + 'a list" where
  "collect [] = Inr []"
| "collect (Inl e # xs) = Inl e"
| "collect (Inr x # xs) = (case collect xs of Inl e \<Rightarrow> Inl e | Inr ys \<Rightarrow> Inr (x # ys))"

definition task_results_text :: "task list \<Rightarrow> error + pystr" where
  "task_results_text ts =
     (case collect (map format_task (enumerate 0 ts)) of
        Inl e \<Rightarrow> Inl e
      | Inr parts \<Rightarrow> Inr (join [10, 10] parts))"

text \<open>The content of the human message of \<open>generate_final_answer\<close>.\<close>

definition final_answer_prompt :: "pystr \<Rightarrow> pystr \<Rightarrow> pystr" where
  "final_answer_prompt user_query text =
     [10, 35, 35, 32, 12518, 12540, 12470, 12540, 12398, 36074, 21839, 58, 10] @ user_query @
     [10, 10, 35, 35, 32, 12479, 12473, 12463, 12398, 23455, 34892, 32080, 26524, 58, 10] @ text @
     [10, 10, 19978, 35352, 12398, 12479, 12473, 12463, 32080, 26524, 12434, 32113, 21512, 12375,
      12390, 12289, 12518, 12540, 12470, 12540, 12398, 36074, 21839, 12395, 23550, 12377, 12427,
      21253, 25324, 30340, 12394, 22238, 31572, 12434, 29983, 25104, 12375, 12390, 12367, 12384,
      12373, 12356, 12290, 10]"

text \<open>
  \<open>generate_final_answer\<close>. The model is called on the human message (behind the fixed
  system message). The first three failures happen outside the \<open>try\<close> and are not
  logged by its handler.
\<close>

definition generate_final_answer ::
  "(pystr \<Rightarrow> error + pystr) \<Rightarrow> base_state \<Rightarrow> planner_command outcome" where
  "generate_final_answer model state =
     (if tasks state = [] then ([(ERROR, ''generate_final_answer'')], Inl RuntimeError)
      else
        (case task_results_text (tasks state) of
           Inl e \<Rightarrow> ([], Inl e)
         | Inr text \<Rightarrow>
             (case messages state of
                [] \<Rightarrow> ([], Inl IndexError)
              | m # _ \<Rightarrow>
                  (let user_query = message_content m in
                   case model (final_answer_prompt user_query text) of
                     Inl e \<Rightarrow> ([(ERROR, ''generate_final_answer'')], Inl e)
                   | Inr response \<Rightarrow>
                       ([], Inr \<lparr>p_update = \<lparr>p_messages = Some [AIMessage response],
                                              p_tasks = None,
                                              p_final_answer = Some response\<rparr>,
                                 p_goto = Planner_END\<rparr>)))))"


section \<open>Running the whole graph\<close>

text \<open>
  \<open>src/graph/builder.py\<close> and \<open>src/agents/planner/graph.py\<close>: the graph starts at
  \<open>plan_tasks\<close>, whose command dispatches one run of the compiled web-search sub-graph
  per \<open>Send\<close>; the edge from \<open>websearch\<close> starts \<open>generate_final_answer\<close> once all of
  them have ended, and its command ends the graph. An exception of any node ends the
  run.
\<close>

text \<open>
  Folding an update of a planner node into the state: \<open>add_messages\<close> (appending, for
  messages without ids) for \<open>messages\<close>, \<open>update_task\<close> for \<open>tasks\<close>, overwriting for
  \<open>final_answer\<close>.
\<close>

definition apply_planner_update :: "base_state \<Rightarrow> planner_update \<Rightarrow> base_state" where
  "apply_planner_update st u =
     st\<lparr> messages := (case p_messages u of None \<Rightarrow> messages st | Some ms \<Rightarrow> messages st @ ms),
         tasks := (case p_tasks u of None \<Rightarrow> tasks st
                   | Some ts \<Rightarrow> update_task (tasks st) (Some ts)),
         final_answer := (case p_final_answer u of None \<Rightarrow> final_answer st
                          | Some a \<Rightarrow> Some a) \<rparr>"

text \<open>
  The state in which a sub-graph starts: the keys of the \<open>Send\<close> argument, empty lists
  for the keys with a reducer, every other key absent.
\<close>

definition websearch_start :: "websearch_input \<Rightarrow> websearch_state" where
  "websearch_start inp =
     \<lparr>messages = [], tasks = [], final_answer = None,
      st_task_id = Some (in_task_id inp),
      st_task_description = Some (in_task_description inp),
      st_task_result = None, search_queries = [], search_results = [], feedback = None,
      attempt = Some (in_attempt inp), completed = Some (in_completed inp)\<rparr>"

text \<open>
  The sub-graph runs of one fan-out. Each starts from its own input; the final state
  of each is folded into the planner's state on the keys they share, in the order of
  the \<open>Send\<close> list.
\<close>

fun run_subtasks ::
  "collaborators \<Rightarrow> websearch_input list \<Rightarrow> base_state \<Rightarrow> error + base_state" where
  "run_subtasks env [] st = Inr st"
| "run_subtasks env (inp # inps) st =
     (case snd (run_websearch env (Goto Generate_search_queries) (websearch_start inp)) of
        Inl e \<Rightarrow> Inl e
      | Inr final \<Rightarrow>
          run_subtasks env inps
            (apply_planner_update st
               \<lparr>p_messages = Some (messages final), p_tasks = Some (tasks final),
                p_final_answer = final_answer final\<rparr>))"

definition run_graph ::
  "(message list \<Rightarrow> error + task_plan) \<Rightarrow> collaborators \<Rightarrow> (pystr \<Rightarrow> error + pystr)
     \<Rightarrow> base_state \<Rightarrow> error + base_state" where
  "run_graph planner_model env answer_model' state =
     (case snd (plan_tasks planner_model state) of
        Inl e \<Rightarrow> Inl e
      | Inr cmd \<Rightarrow>
          (let st1 = apply_planner_update state (p_update cmd) in
           case p_goto cmd of
             Planner_END \<Rightarrow> Inr st1
           | Websearch_sends sends \<Rightarrow>
               if sends = [] then Inr st1
               else
                 (case run_subtasks env sends st1 of
                    Inl e \<Rightarrow> Inl e
                  | Inr st2 \<Rightarrow>
                      (case snd (generate_final_answer answer_model' st2) of
                         Inl e \<Rightarrow> Inl e
                       | Inr cmd' \<Rightarrow> Inr (apply_planner_update st2 (p_update cmd'))))))"

section \<open>Auxiliary functions for the statements\<close>

text \<open>
  The dict that one pass of the loop of \<open>execute_search\<close> appends for a provider
  result that has its \<open>link\<close> and \<open>title\<close>.
\<close>

definition appended_entry :: "page_loader \<Rightarrow> pystr \<Rightarrow> provider_result \<Rightarrow> search_result" where
  "appended_entry loader' q r =
     \<lparr>query = q, title = the (pr_title r), url = the (pr_link r),
      snippet = (case pr_snippet r of None \<Rightarrow> [] | Some s \<Rightarrow> s),
      content = (case load_content loader' (the (pr_link r)) of
                   Inl e \<Rightarrow> None
                 | Inr c \<Rightarrow> Some (take 2500 c))\<rparr>"

text \<open>The string that \<open>format_task\<close> builds for a task that has a result.\<close>

definition task_line :: "nat \<times> task \<Rightarrow> pystr" where
  "task_line p =
     [12304, 12479, 12473, 12463] @ str (fst p + 1) @ [12305] @ task_description (snd p)
       @ [10, 32080, 26524, 58, 32] @ the (task_result (snd p))"

section \<open>Sample inputs\<close>

text \<open>Concrete tasks, states and collaborators on which the theorems below are instantiated.\<close>

definition task0 :: task where
  "task0 = \<lparr>task_id = str 0, task_description = ascii ''weather in Tokyo'', task_result = None\<rparr>"

definition task1 :: task where
  "task1 = \<lparr>task_id = str 1, task_description = ascii ''weather in Saitama'', task_result = None\<rparr>"

definition task1_done :: task where
  "task1_done = task1\<lparr>task_result := Some (ascii ''sunny'')\<rparr>"

definition task2_done :: task where
  "task2_done = \<lparr>task_id = str 2, task_description = ascii ''weather in Chiba'',
                  task_result = Some (ascii ''rain'')\<rparr>"

definition sample_state :: websearch_state where
  "sample_state =
     \<lparr>messages = [], tasks = [], final_answer = None,
      st_task_id = Some (str 0), st_task_description = Some (ascii ''weather in Tokyo''),
      st_task_result = Some (ascii ''draft''), search_queries = [ascii ''tokyo weather''],
      search_results = [\<lparr>query = ascii ''tokyo weather'', title = ascii ''Forecast'',
                         url = ascii ''http://a.example'', snippet = ascii ''snip'',
                         content = None\<rparr>],
      feedback = None, attempt = Some 0, completed = Some False\<rparr>"

definition ev_ok :: task_evaluation where
  "ev_ok = \<lparr>is_satisfactory = True, need = None, reason = ascii ''fine'', ev_feedback = None\<rparr>"

definition ev_search :: task_evaluation where
  "ev_search = \<lparr>is_satisfactory = False, need = Some Need_search, reason = ascii ''off topic'',
                 ev_feedback = Some (ascii ''add the date'')\<rparr>"

definition ev_generate :: task_evaluation where
  "ev_generate = \<lparr>is_satisfactory = False, need = Some Need_generate, reason = ascii ''vague'',
                   ev_feedback = Some (ascii ''give numbers'')\<rparr>"

definition ev_inconsistent :: task_evaluation where
  "ev_inconsistent = \<lparr>is_satisfactory = False, need = None, reason = ascii ''unsure'',
                       ev_feedback = None\<rparr>"

definition sample_results :: "provider_result list" where
  "sample_results =
     [\<lparr>pr_link = Some (ascii ''http://a.example''), pr_title = Some (ascii ''Forecast''),
       pr_snippet = Some (ascii ''snip a'')\<rparr>,
      \<lparr>pr_link = Some (ascii ''http://b.example''), pr_title = Some (ascii ''Radar''),
       pr_snippet = None\<rparr>]"

definition sample_page :: pystr where
  "sample_page = ascii ''Tokyo'' @ [10, 32, 10, 10, 32, 32] @ ascii ''sunny, 25C'' @ [32, 10]"

definition sample_provider :: search_provider where
  "sample_provider q n = (if q = ascii ''down'' then Inl ProviderError else Inr (take n sample_results))"

definition sample_loader :: page_loader where
  "sample_loader u t = (if u = ascii ''http://a.example'' then Inr [sample_page] else Inl TimeoutError)"

definition sample_env :: collaborators where
  "sample_env =
     \<lparr>queries_model = (\<lambda>s. Inr [ascii ''tokyo weather'']),
      answer_model = (\<lambda>s. Inr (ascii ''draft'')),
      evaluation_model = (\<lambda>s. Inr ev_search),
      provider = sample_provider,
      loader = sample_loader\<rparr>"

definition long_page :: pystr where
  "long_page = replicate 3000 120"

definition long_loader :: page_loader where
  "long_loader u t = Inr [long_page]"

text \<open>The state a sub-graph starts from: the argument of the planner's \<open>Send\<close> for task 0.\<close>

definition fresh_state :: websearch_state where
  "fresh_state =
     \<lparr>messages = [], tasks = [], final_answer = None,
      st_task_id = Some (str 0), st_task_description = Some (ascii ''weather in Tokyo''),
      st_task_result = None, search_queries = [], search_results = [],
      feedback = None, attempt = Some 0, completed = Some False\<rparr>"

definition sample_plan :: task_plan where
  "sample_plan = \<lparr>plan_tasks_of = [ascii ''weather in Tokyo'', ascii ''weather in Saitama''],
                   plan_reason = ascii ''one task per city''\<rparr>"

definition sample_base :: base_state where
  "sample_base = \<lparr>messages = [HumanMessage (ascii ''weather in Tokyo and Saitama?'')],
                   tasks = [], final_answer = None\<rparr>"

definition empty_plan :: task_plan where
  "empty_plan = \<lparr>plan_tasks_of = [], plan_reason = ascii ''nothing to do''\<rparr>"

definition done_base :: base_state where
  "done_base = sample_base\<lparr>tasks := [task1_done, task2_done]\<rparr>"

section \<open>Properties of the reducers\<close>

lemma update_task_nonempty:
  "new \<noteq> [] \<Longrightarrow> update_task existing (Some new) =
     filter (\<lambda>t. task_id t \<notin> set (map task_id new)) existing @ new"
  by (cases new) (simp_all add: update_task_def)

text \<open>
  C5. Let \<open>existing\<close> and a non-empty \<open>new\<close> each be free of duplicate task ids. Then the
  merged list has no duplicate task id; it ends with \<open>new\<close> (updates are appended, in
  their order); its entries are exactly those of \<open>new\<close> and the entries of \<open>existing\<close>
  whose id \<open>new\<close> does not mention; an entry whose id \<open>new\<close> mentions is the one from
  \<open>new\<close> (the old one is replaced); and the untouched entries of \<open>existing\<close> keep their
  order.
\<close>

theorem update_task_replace_or_append:
  assumes "new \<noteq> []"
      and "distinct (map task_id existing)"
      and "distinct (map task_id new)"
  shows "distinct (map task_id (update_task existing (Some new)))
       \<and> suffix new (update_task existing (Some new))
       \<and> set (update_task existing (Some new)) =
           {t \<in> set existing. task_id t \<notin> task_id ` set new} \<union> set new
       \<and> (\<forall>t \<in> set (update_task existing (Some new)).
             task_id t \<in> task_id ` set new \<longrightarrow> t \<in> set new)
       \<and> filter (\<lambda>t. task_id t \<notin> task_id ` set new) (update_task existing (Some new)) =
           filter (\<lambda>t. task_id t \<notin> task_id ` set new) existing
       \<and> length (update_task existing (Some new)) =
           length (filter (\<lambda>t. task_id t \<notin> task_id ` set new) existing) + length new"
  using assms
  by (auto simp: update_task_nonempty distinct_map_filter suffix_def filter_empty_conv)

theorem update_task_replace_or_append_witness:
  "[task1_done, task2_done] \<noteq> []
   \<and> distinct (map task_id [task0, task1])
   \<and> distinct (map task_id [task1_done, task2_done])
   \<and> update_task [task0, task1] (Some [task1_done, task2_done]) = [task0, task1_done, task2_done]
   \<and> distinct (map task_id (update_task [task0, task1] (Some [task1_done, task2_done])))
   \<and> suffix [task1_done, task2_done] (update_task [task0, task1] (Some [task1_done, task2_done]))"
proof -
  have ne: "[task1_done, task2_done] \<noteq> []" by simp
  have d1: "distinct (map task_id [task0, task1])"
    by (simp add: task0_def task1_def)
  have d2: "distinct (map task_id [task1_done, task2_done])"
    by (simp add: task1_done_def task1_def task2_done_def)
  have r: "update_task [task0, task1] (Some [task1_done, task2_done]) = [task0, task1_done, task2_done]"
    by (simp add: update_task_def task0_def task1_def task1_done_def task2_done_def)
  from update_task_replace_or_append [OF ne d1 d2] ne d1 d2 r show ?thesis by simp
qed

text \<open>
  C10. An empty update of the task list, or Python's \<open>None\<close>, leaves the list as it
  is, whereas an empty right argument of the search-result reducer clears whatever has
  been accumulated.
\<close>

theorem empty_task_update_is_identity:
  "update_task existing (Some []) = existing
   \<and> update_task existing None = existing
   \<and> merge_search_results left (Some []) = []"
  by (simp add: update_task_def merge_search_results_def)

section \<open>Properties of \<open>evaluate_task_result\<close>\<close>

text \<open>
  C2. Whatever evaluation the model returns, \<open>evaluate_task_result\<close> returns a command
  whose update carries the incremented attempt counter, and it decides in this order:
  if the evaluation is satisfactory or the incremented counter is at least 2, it goes
  to \<open>END\<close>, sets \<open>completed\<close> and publishes the task's id, description and result;
  else if \<open>need\<close> is \<open>search\<close>, it goes to \<open>generate_search_queries\<close> with an empty
  search-result list and the feedback; else if \<open>need\<close> is \<open>generate\<close>, it goes to
  \<open>generate_task_result\<close> with the feedback; else (unsatisfactory without a \<open>need\<close>) it
  logs a warning and completes the task as in the first case.
\<close>

theorem evaluate_task_result_decision_rule:
  assumes "model state = Inr evaluation"
  shows "\<exists>logs cmd.
           evaluate_task_result model state = (logs, Inr cmd)
         \<and> u_attempt (update cmd) = Some (get_attempt state + 1)
         \<and> attempt (apply_update state (update cmd)) = Some (get_attempt state + 1)
         \<and> (if is_satisfactory evaluation \<or> get_attempt state + 1 \<ge> 2 then
               goto cmd = Goto END \<and> logs = []
             \<and> u_completed (update cmd) = Some True
             \<and> u_tasks (update cmd) =
                 Some [\<lparr>task_id = get_task_id state,
                        task_description = get_task_description state,
                        task_result = Some (get_task_result state)\<rparr>]
             \<and> u_search_results (update cmd) = None \<and> u_feedback (update cmd) = None
            else if need evaluation = Some Need_search then
               goto cmd = Goto Generate_search_queries \<and> logs = []
             \<and> u_search_results (update cmd) = Some []
             \<and> u_feedback (update cmd) = Some (ev_feedback evaluation)
             \<and> u_completed (update cmd) = None \<and> u_tasks (update cmd) = None
            else if need evaluation = Some Need_generate then
               goto cmd = Goto Generate_task_result \<and> logs = []
             \<and> u_search_results (update cmd) = None
             \<and> u_feedback (update cmd) = Some (ev_feedback evaluation)
             \<and> u_completed (update cmd) = None \<and> u_tasks (update cmd) = None
            else
               goto cmd = Goto END \<and> logs = [(WARNING, ''evaluate_task_result'')]
             \<and> u_completed (update cmd) = Some True
             \<and> u_tasks (update cmd) =
                 Some [\<lparr>task_id = get_task_id state,
                        task_description = get_task_description state,
                        task_result = Some (get_task_result state)\<rparr>]
             \<and> u_search_results (update cmd) = None \<and> u_feedback (update cmd) = None)"
  using assms
  by (simp add: evaluate_task_result_def Let_def no_update_def apply_update_def)

lemma sample_state_gets:
  "get_attempt sample_state = 0" "get_task_id sample_state = str 0"
  "get_task_description sample_state = ascii ''weather in Tokyo''"
  "get_task_result sample_state = ascii ''draft''"
  by (simp_all add: sample_state_def get_attempt_def get_task_id_def get_task_description_def
        get_task_result_def)

theorem evaluate_task_result_decision_rule_witness:
  "(\<exists>logs cmd. evaluate_task_result (\<lambda>s. Inr ev_ok) sample_state = (logs, Inr cmd)
      \<and> u_attempt (update cmd) = Some 1 \<and> goto cmd = Goto END \<and> logs = []
      \<and> u_completed (update cmd) = Some True
      \<and> u_tasks (update cmd) =
           Some [\<lparr>task_id = str 0, task_description = ascii ''weather in Tokyo'',
                  task_result = Some (ascii ''draft'')\<rparr>])
   \<and> (\<exists>logs cmd. evaluate_task_result (\<lambda>s. Inr ev_search) sample_state = (logs, Inr cmd)
      \<and> u_attempt (update cmd) = Some 1 \<and> goto cmd = Goto Generate_search_queries
      \<and> u_search_results (update cmd) = Some []
      \<and> u_feedback (update cmd) = Some (Some (ascii ''add the date'')))
   \<and> (\<exists>logs cmd. evaluate_task_result (\<lambda>s. Inr ev_generate) sample_state = (logs, Inr cmd)
      \<and> u_attempt (update cmd) = Some 1 \<and> goto cmd = Goto Generate_task_result
      \<and> u_search_results (update cmd) = None
      \<and> u_feedback (update cmd) = Some (Some (ascii ''give numbers'')))
   \<and> (\<exists>logs cmd. evaluate_task_result (\<lambda>s. Inr ev_inconsistent) sample_state = (logs, Inr cmd)
      \<and> u_attempt (update cmd) = Some 1 \<and> goto cmd = Goto END
      \<and> logs = [(WARNING, ''evaluate_task_result'')]
      \<and> u_completed (update cmd) = Some True)
   \<and> (\<exists>logs cmd. evaluate_task_result (\<lambda>s. Inr ev_search) (sample_state\<lparr>attempt := Some 1\<rparr>)
                     = (logs, Inr cmd)
      \<and> u_attempt (update cmd) = Some 2 \<and> goto cmd = Goto END \<and> logs = []
      \<and> u_completed (update cmd) = Some True)"
proof -
  note defs = sample_state_gets ev_ok_def ev_search_def ev_generate_def ev_inconsistent_def
  have forced: "get_attempt (sample_state\<lparr>attempt := Some 1\<rparr>) = 1"
    by (simp add: get_attempt_def)
  have 1: "\<exists>logs cmd. evaluate_task_result (\<lambda>s. Inr ev_ok) sample_state = (logs, Inr cmd)
      \<and> u_attempt (update cmd) = Some 1 \<and> goto cmd = Goto END \<and> logs = []
      \<and> u_completed (update cmd) = Some True
      \<and> u_tasks (update cmd) =
           Some [\<lparr>task_id = str 0, task_description = ascii ''weather in Tokyo'',
                  task_result = Some (ascii ''draft'')\<rparr>]"
    using evaluate_task_result_decision_rule [of "\<lambda>s. Inr ev_ok" sample_state ev_ok]
    by (simp add: defs) blast
  have 2: "\<exists>logs cmd. evaluate_task_result (\<lambda>s. Inr ev_search) sample_state = (logs, Inr cmd)
      \<and> u_attempt (update cmd) = Some 1 \<and> goto cmd = Goto Generate_search_queries
      \<and> u_search_results (update cmd) = Some []
      \<and> u_feedback (update cmd) = Some (Some (ascii ''add the date''))"
    using evaluate_task_result_decision_rule [of "\<lambda>s. Inr ev_search" sample_state ev_search]
    by (simp add: defs) blast
  have 3: "\<exists>logs cmd. evaluate_task_result (\<lambda>s. Inr ev_generate) sample_state = (logs, Inr cmd)
      \<and> u_attempt (update cmd) = Some 1 \<and> goto cmd = Goto Generate_task_result
      \<and> u_search_results (update cmd) = None
      \<and> u_feedback (update cmd) = Some (Some (ascii ''give numbers''))"
    using evaluate_task_result_decision_rule [of "\<lambda>s. Inr ev_generate" sample_state ev_generate]
    by (simp add: defs) blast
  have 4: "\<exists>logs cmd. evaluate_task_result (\<lambda>s. Inr ev_inconsistent) sample_state = (logs, Inr cmd)
      \<and> u_attempt (update cmd) = Some 1 \<and> goto cmd = Goto END
      \<and> logs = [(WARNING, ''evaluate_task_result'')]
      \<and> u_completed (update cmd) = Some True"
    using evaluate_task_result_decision_rule
            [of "\<lambda>s. Inr ev_inconsistent" sample_state ev_inconsistent]
    by (simp add: defs) blast
  have 5: "\<exists>logs cmd. evaluate_task_result (\<lambda>s. Inr ev_search) (sample_state\<lparr>attempt := Some 1\<rparr>)
                     = (logs, Inr cmd)
      \<and> u_attempt (update cmd) = Some 2 \<and> goto cmd = Goto END \<and> logs = []
      \<and> u_completed (update cmd) = Some True"
    using evaluate_task_result_decision_rule
            [of "\<lambda>s. Inr ev_search" "sample_state\<lparr>attempt := Some 1\<rparr>" ev_search]
    by (simp add: defs forced) blast
  from 1 2 3 4 5 show ?thesis by (intro conjI)
qed

text \<open>
  C4. When the evaluation is unsatisfactory with \<open>need = search\<close> and the incremented
  attempt counter is below 2, the command goes to \<open>generate_search_queries\<close> and its
  update holds an empty search-result list and the evaluator's feedback; folded into
  the state by the reducer, the update leaves the search-result list empty and stores
  the feedback, and the list is still empty after the query-generation step that
  follows, that is when the next searches are dispatched.
\<close>

theorem need_search_clears_search_results:
  assumes "evaluation_model env state = Inr evaluation"
      and "need evaluation = Some Need_search"
      and "\<not> is_satisfactory evaluation"
      and "get_attempt state + 1 < 2"
  shows "\<exists>cmd st'.
           evaluate_task_result (evaluation_model env) state = ([], Inr cmd)
         \<and> goto cmd = Goto Generate_search_queries
         \<and> u_search_results (update cmd) = Some []
         \<and> u_feedback (update cmd) = Some (ev_feedback evaluation)
         \<and> st' = apply_update state (update cmd)
         \<and> search_results st' = []
         \<and> feedback st' = ev_feedback evaluation
         \<and> step env (Goto Evaluate_task_result) state = Next (Goto Generate_search_queries) st'
         \<and> (\<forall>target st''. step env (Goto Generate_search_queries) st' = Next target st''
                \<longrightarrow> search_results st'' = [])"
proof -
  let ?cmd = "\<lparr>update = no_update\<lparr>u_attempt := Some (get_attempt state + 1),
                  u_search_results := Some [], u_feedback := Some (ev_feedback evaluation)\<rparr>,
                goto = Goto Generate_search_queries\<rparr>"
  let ?st = "apply_update state (update ?cmd)"
  have ev: "evaluate_task_result (evaluation_model env) state = ([], Inr ?cmd)"
    using assms by (simp add: evaluate_task_result_def Let_def)
  have sr: "search_results ?st = []"
    by (simp add: apply_update_def no_update_def merge_search_results_def)
  have fb: "feedback ?st = ev_feedback evaluation"
    by (simp add: apply_update_def no_update_def)
  have stp: "step env (Goto Evaluate_task_result) state = Next (Goto Generate_search_queries) ?st"
    by (simp add: ev follow_def)
  have nxt: "search_results st'' = []"
    if "step env (Goto Generate_search_queries) ?st = Next target st''" for target st''
    using that sr
    by (auto simp: follow_def generate_search_queries_def apply_update_def no_update_def
          split: sum.splits if_splits)
  from ev sr fb stp nxt show ?thesis
    by (intro exI [of _ ?cmd] exI [of _ ?st]) (simp add: no_update_def)
qed

theorem need_search_clears_search_results_witness:
  "evaluation_model sample_env sample_state = Inr ev_search
   \<and> need ev_search = Some Need_search \<and> \<not> is_satisfactory ev_search
   \<and> get_attempt sample_state + 1 < 2
   \<and> search_results sample_state \<noteq> []
   \<and> (\<exists>cmd st'. evaluate_task_result (evaluation_model sample_env) sample_state = ([], Inr cmd)
         \<and> goto cmd = Goto Generate_search_queries
         \<and> st' = apply_update sample_state (update cmd)
         \<and> search_results st' = []
         \<and> feedback st' = Some (ascii ''add the date''))"
proof -
  have h1: "evaluation_model sample_env sample_state = Inr ev_search"
    by (simp add: sample_env_def)
  have h2: "need ev_search = Some Need_search" and h3: "\<not> is_satisfactory ev_search"
    by (simp_all add: ev_search_def)
  have h4: "get_attempt sample_state + 1 < 2"
    by (simp add: sample_state_gets)
  have h5: "search_results sample_state \<noteq> []"
    by (simp add: sample_state_def)
  have fb: "ev_feedback ev_search = Some (ascii ''add the date'')"
    by (simp add: ev_search_def)
  from need_search_clears_search_results [OF h1 h2 h3 h4] h1 h2 h3 h4 h5 show ?thesis
    unfolding fb by blast
qed

section \<open>Properties of \<open>execute_search\<close>\<close>

lemma search_loop_wellformed:
  "\<forall>r \<in> set results. pr_link r \<noteq> None \<and> pr_title r \<noteq> None \<Longrightarrow>
   \<exists>logs'. search_loop ld q results logs acc =
             (logs', Inr (acc @ map (appended_entry ld q) results))"
proof (induction results arbitrary: logs acc)
  case Nil
  then show ?case by simp
next
  case (Cons r results)
  from Cons.prems obtain u t where ut: "pr_link r = Some u" "pr_title r = Some t"
    by auto
  from Cons.prems have rest: "\<forall>r \<in> set results. pr_link r \<noteq> None \<and> pr_title r \<noteq> None"
    by simp
  have "\<exists>logs2. search_loop ld q (r # results) logs acc =
                   search_loop ld q results logs2 (acc @ [appended_entry ld q r])"
    using ut by (cases "load_content ld u") (auto simp: appended_entry_def)
  then obtain logs2 where
    "search_loop ld q (r # results) logs acc =
       search_loop ld q results logs2 (acc @ [appended_entry ld q r])" ..
  with Cons.IH [OF rest, of logs2 "acc @ [appended_entry ld q r]"] show ?case
    by simp
qed

lemma execute_search_wellformed:
  assumes "q \<noteq> []" and "pv q 2 = Inr results"
      and "\<forall>r \<in> set results. pr_link r \<noteq> None \<and> pr_title r \<noteq> None"
  shows "\<exists>logs. execute_search pv ld (Some q) =
           (logs, Inr (search_results_command (map (appended_entry ld q) results)))"
proof (cases "results = []")
  case True
  with assms show ?thesis by (simp add: execute_search_def num_results_def)
next
  case False
  from search_loop_wellformed [OF assms(3), of ld q "[]" "[]"]
  obtain logs' where "search_loop ld q results [] [] = (logs', Inr (map (appended_entry ld q) results))"
    by auto
  with False assms show ?thesis by (simp add: execute_search_def num_results_def)
qed

lemma execute_search_command:
  "\<exists>logs rs. execute_search pv ld arg = (logs, Inr (search_results_command rs))"
  by (auto simp: execute_search_def Let_def split: sum.split prod.split)

lemma search_loop_content:
  assumes "search_loop ld q results logs acc = (logs', Inr rs)"
      and "\<forall>sr \<in> set acc. \<forall>c. content sr = Some c \<longrightarrow>
             (\<exists>d ds. ld (url sr) 15 = Inr (d # ds) \<and> c = take 2500 (clean_text d))"
  shows "\<forall>sr \<in> set rs. \<forall>c. content sr = Some c \<longrightarrow>
             (\<exists>d ds. ld (url sr) 15 = Inr (d # ds) \<and> c = take 2500 (clean_text d))"
  using assms
proof (induction results arbitrary: logs acc)
  case Nil
  then show ?case by simp
next
  case (Cons r results)
  from Cons.prems(1) obtain u t where ut: "pr_link r = Some u" "pr_title r = Some t"
    by (auto split: option.splits)
  show ?case
  proof (cases "load_content ld u")
    case (Inl e)
    with ut Cons.prems show ?thesis
      by (intro Cons.IH [of "logs @ [(WARNING, ''execute_search'')]" 
            "acc @ [\<lparr>query = q, title = t, url = u, snippet = (case pr_snippet r of None \<Rightarrow> [] | Some s \<Rightarrow> s), content = None\<rparr>]"])
         auto
  next
    case (Inr c)
    then have "\<exists>d ds. ld u 15 = Inr (d # ds) \<and> c = clean_text d"
      by (auto simp: load_content_def load_timeout_def split: sum.splits list.splits)
    with Inr ut Cons.prems show ?thesis
      by (intro Cons.IH [of logs
            "acc @ [\<lparr>query = q, title = t, url = u, snippet = (case pr_snippet r of None \<Rightarrow> [] | Some s \<Rightarrow> s), content = Some (take 2500 c)\<rparr>]"])
         auto
  qed
qed

lemma execute_search_cases:
  "(\<exists>logs. execute_search pv ld arg = (logs, Inr (search_results_command [])))
   \<or> (\<exists>q results logs rs.
         search_loop ld q results [] [] = (logs, Inr rs)
       \<and> execute_search pv ld arg = (logs, Inr (search_results_command rs)))"
proof -
  let ?q = "case arg of None \<Rightarrow> [] | Some v \<Rightarrow> v"
  show ?thesis
  proof (cases "?q = []")
    case True
    then show ?thesis by (simp add: execute_search_def)
  next
    case q: False
    show ?thesis
    proof (cases "pv ?q num_results")
      case (Inl e)
      with q show ?thesis by (simp add: execute_search_def)
    next
      case (Inr results)
      show ?thesis
      proof (cases "results = []")
        case True
        with q Inr show ?thesis by (simp add: execute_search_def)
      next
        case ne: False
        obtain logs r where sl: "search_loop ld ?q results [] [] = (logs, r)"
          by (cases "search_loop ld ?q results [] []")
        show ?thesis
        proof (cases r)
          case (Inl e)
          with q Inr ne sl show ?thesis by (simp add: execute_search_def)
        next
          case r: (Inr rs)
          with q Inr ne sl have "execute_search pv ld arg = (logs, Inr (search_results_command rs))"
            by (simp add: execute_search_def)
          with sl r show ?thesis by blast
        qed
      qed
    qed
  qed
qed

lemma search_loop_loader_cong:
  assumes "\<forall>u. ld' u 15 = ld u 15"
  shows "search_loop ld' q results logs acc = search_loop ld q results logs acc"
proof -
  have lc: "load_content ld' u = load_content ld u" for u
    using assms by (simp add: load_content_def load_timeout_def)
  show ?thesis
    by (induction results arbitrary: logs acc) (simp_all add: lc split: option.split sum.split)
qed

lemma clean_sample_page: "clean_text sample_page = ascii ''Tokyo'' @ [10] @ ascii ''sunny, 25C''"
  by (simp add: clean_text_def sample_page_def ascii_def strip_def is_space_def)

lemma load_sample:
  "load_content sample_loader (ascii ''http://a.example'') = Inr (ascii ''Tokyo'' @ [10] @ ascii ''sunny, 25C'')"
  "load_content sample_loader (ascii ''http://b.example'') = Inl TimeoutError"
  by (simp_all add: load_content_def sample_loader_def clean_sample_page) (simp add: ascii_def)

lemma execute_sample:
  "execute_search sample_provider sample_loader (Some (ascii ''tokyo weather'')) =
  ([(WARNING, ''execute_search'')],
   Inr (search_results_command
     [\<lparr>query = ascii ''tokyo weather'', title = ascii ''Forecast'', url = ascii ''http://a.example'',
       snippet = ascii ''snip a'', content = Some (ascii ''Tokyo'' @ [10] @ ascii ''sunny, 25C'')\<rparr>,
      \<lparr>query = ascii ''tokyo weather'', title = ascii ''Radar'', url = ascii ''http://b.example'',
       snippet = [], content = None\<rparr>]))"
proof -
  have q: "ascii ''tokyo weather'' \<noteq> []" "ascii ''tokyo weather'' \<noteq> ascii ''down''"
    by (simp_all add: ascii_def)
  show ?thesis
    by (simp add: execute_search_def sample_provider_def num_results_def sample_results_def q
          load_sample Let_def) (simp add: ascii_def)
qed

lemma execute_down:
  "execute_search sample_provider sample_loader (Some (ascii ''down'')) =
     ([(ERROR, ''execute_search'')], Inr (search_results_command []))"
proof -
  have q: "ascii ''down'' \<noteq> []" by (simp add: ascii_def)
  show ?thesis by (simp add: execute_search_def sample_provider_def q)
qed

text \<open>
  C8. For a non-empty query, \<open>execute_search\<close> reads the provider only at that query
  with 2 as the number of results, and the page loader only with a timeout of 15
  seconds. When the provider returns results (each with its \<open>link\<close> and \<open>title\<close>),
  \<open>execute_search\<close> does not raise: its command goes to \<open>generate_task_result\<close> with one
  search result per provider result, in the provider's order, each carrying the query
  and the provider's URL, title and snippet; a result whose page load fails, times out
  or yields no document has no \<open>content\<close>, the others the cleaned page text cut at 2500
  characters.
\<close>

theorem execute_search_keeps_every_result:
  assumes "q \<noteq> []"
      and "pv q 2 = Inr results"
      and "\<forall>r \<in> set results. pr_link r \<noteq> None \<and> pr_title r \<noteq> None"
  shows "\<exists>logs rs.
           execute_search pv ld (Some q) =
             (logs, Inr \<lparr>update = no_update\<lparr>u_search_results := Some rs\<rparr>,
                         goto = Goto Generate_task_result\<rparr>)
         \<and> length rs = length results
         \<and> (\<forall>i < length results.
               query (rs ! i) = q
             \<and> url (rs ! i) = the (pr_link (results ! i))
             \<and> title (rs ! i) = the (pr_title (results ! i))
             \<and> snippet (rs ! i) = (case pr_snippet (results ! i) of None \<Rightarrow> [] | Some s \<Rightarrow> s)
             \<and> content (rs ! i) =
                 (case ld (url (rs ! i)) 15 of
                    Inl e \<Rightarrow> None
                  | Inr [] \<Rightarrow> None
                  | Inr (d # ds) \<Rightarrow> Some (take 2500 (clean_text d))))
         \<and> (\<forall>pv' ld'. pv' q 2 = pv q 2 \<and> (\<forall>u. ld' u 15 = ld u 15) \<longrightarrow>
               execute_search pv' ld' (Some q) = execute_search pv ld (Some q))"
proof -
  let ?rs = "map (appended_entry ld q) results"
  from execute_search_wellformed [of q pv results ld] assms obtain logs where
    ex: "execute_search pv ld (Some q) = (logs, Inr (search_results_command ?rs))" by blast
  have fields: "query (?rs ! i) = q
             \<and> url (?rs ! i) = the (pr_link (results ! i))
             \<and> title (?rs ! i) = the (pr_title (results ! i))
             \<and> snippet (?rs ! i) = (case pr_snippet (results ! i) of None \<Rightarrow> [] | Some s \<Rightarrow> s)
             \<and> content (?rs ! i) =
                 (case ld (url (?rs ! i)) 15 of
                    Inl e \<Rightarrow> None
                  | Inr [] \<Rightarrow> None
                  | Inr (d # ds) \<Rightarrow> Some (take 2500 (clean_text d)))"
    if "i < length results" for i
    using that
    by (simp add: appended_entry_def load_content_def load_timeout_def
          split: sum.split list.split)
  have cong: "execute_search pv' ld' (Some q) = execute_search pv ld (Some q)"
    if "pv' q 2 = pv q 2" and "\<forall>u. ld' u 15 = ld u 15" for pv' ld'
  proof -
    have sl: "search_loop ld' = search_loop ld"
      using search_loop_loader_cong [of ld' ld] that(2) by (intro ext) simp
    show ?thesis
      unfolding execute_search_def num_results_def sl by (simp add: that(1))
  qed
  have "execute_search pv ld (Some q) =
          (logs, Inr \<lparr>update = no_update\<lparr>u_search_results := Some ?rs\<rparr>,
                      goto = Goto Generate_task_result\<rparr>)"
    using ex by (simp add: search_results_command_def)
  moreover have "length ?rs = length results"
    by simp
  moreover note fields cong
  ultimately show ?thesis
    by (intro exI [of _ logs] exI [of _ ?rs] conjI allI impI) blast+
qed

theorem execute_search_keeps_every_result_witness:
  "ascii ''tokyo weather'' \<noteq> []
   \<and> sample_provider (ascii ''tokyo weather'') 2 = Inr sample_results
   \<and> map pr_link sample_results = [Some (ascii ''http://a.example''), Some (ascii ''http://b.example'')]
   \<and> map pr_title sample_results = [Some (ascii ''Forecast''), Some (ascii ''Radar'')]
   \<and> sample_loader (ascii ''http://b.example'') 15 = Inl TimeoutError
   \<and> (\<exists>logs rs.
         execute_search sample_provider sample_loader (Some (ascii ''tokyo weather'')) =
           (logs, Inr \<lparr>update = no_update\<lparr>u_search_results := Some rs\<rparr>,
                       goto = Goto Generate_task_result\<rparr>)
       \<and> length rs = 2
       \<and> url (rs ! 0) = ascii ''http://a.example''
       \<and> content (rs ! 0) = Some (ascii ''Tokyo'' @ [10] @ ascii ''sunny, 25C'')
       \<and> url (rs ! 1) = ascii ''http://b.example''
       \<and> snippet (rs ! 1) = []
       \<and> content (rs ! 1) = None)"
proof -
  let ?q = "ascii ''tokyo weather''"
  have h1: "?q \<noteq> []" and ne: "?q \<noteq> ascii ''down''"
    by (simp_all add: ascii_def)
  have h2: "sample_provider ?q 2 = Inr sample_results"
    using ne by (simp add: sample_provider_def sample_results_def)
  have h3: "\<forall>r \<in> set sample_results. pr_link r \<noteq> None \<and> pr_title r \<noteq> None"
    by (simp add: sample_results_def)
  have lb: "sample_loader (ascii ''http://b.example'') 15 = Inl TimeoutError"
    by (simp add: sample_loader_def ascii_def)
  have la: "sample_loader (ascii ''http://a.example'') 15 = Inr [sample_page]"
    by (simp add: sample_loader_def)
  have links: "the (pr_link (sample_results ! 0)) = ascii ''http://a.example''"
    "the (pr_link (sample_results ! 1)) = ascii ''http://b.example''"
    "pr_snippet (sample_results ! 1) = None" "length sample_results = 2"
    by (simp_all add: sample_results_def)
  from execute_search_keeps_every_result
         [of "ascii ''tokyo weather''" sample_provider sample_results sample_loader] h1 h2 h3
  obtain logs rs where
    ex: "execute_search sample_provider sample_loader (Some ?q) =
           (logs, Inr \<lparr>update = no_update\<lparr>u_search_results := Some rs\<rparr>,
                       goto = Goto Generate_task_result\<rparr>)" and
    len: "length rs = length sample_results" and
    fields: "\<forall>i < length sample_results.
               query (rs ! i) = ?q
             \<and> url (rs ! i) = the (pr_link (sample_results ! i))
             \<and> title (rs ! i) = the (pr_title (sample_results ! i))
             \<and> snippet (rs ! i) =
                 (case pr_snippet (sample_results ! i) of None \<Rightarrow> [] | Some s \<Rightarrow> s)
             \<and> content (rs ! i) =
                 (case sample_loader (url (rs ! i)) 15 of
                    Inl e \<Rightarrow> None
                  | Inr [] \<Rightarrow> None
                  | Inr (d # ds) \<Rightarrow> Some (take 2500 (clean_text d)))"
    by blast
  from fields links have f0: "url (rs ! 0) = ascii ''http://a.example''"
    and f1: "url (rs ! 1) = ascii ''http://b.example''" and s1: "snippet (rs ! 1) = []"
    by simp_all
  from fields links have "content (rs ! 0) =
      (case sample_loader (url (rs ! 0)) 15 of
         Inl e \<Rightarrow> None | Inr [] \<Rightarrow> None | Inr (d # ds) \<Rightarrow> Some (take 2500 (clean_text d)))"
    by simp
  then have c0: "content (rs ! 0) = Some (ascii ''Tokyo'' @ [10] @ ascii ''sunny, 25C'')"
    by (simp add: f0 la clean_sample_page) (simp add: ascii_def)
  from fields links have "content (rs ! 1) =
      (case sample_loader (url (rs ! 1)) 15 of
         Inl e \<Rightarrow> None | Inr [] \<Rightarrow> None | Inr (d # ds) \<Rightarrow> Some (take 2500 (clean_text d)))"
    by simp
  with f1 lb have c1: "content (rs ! 1) = None"
    by simp
  from ex len links f0 f1 s1 c0 c1 have
    "\<exists>logs rs.
         execute_search sample_provider sample_loader (Some ?q) =
           (logs, Inr \<lparr>update = no_update\<lparr>u_search_results := Some rs\<rparr>,
                       goto = Goto Generate_task_result\<rparr>)
       \<and> length rs = 2
       \<and> url (rs ! 0) = ascii ''http://a.example''
       \<and> content (rs ! 0) = Some (ascii ''Tokyo'' @ [10] @ ascii ''sunny, 25C'')
       \<and> url (rs ! 1) = ascii ''http://b.example''
       \<and> snippet (rs ! 1) = []
       \<and> content (rs ! 1) = None"
    by (intro exI [of _ logs] exI [of _ rs]) simp
  moreover have "map pr_link sample_results =
      [Some (ascii ''http://a.example''), Some (ascii ''http://b.example'')]"
    and "map pr_title sample_results = [Some (ascii ''Forecast''), Some (ascii ''Radar'')]"
    by (simp_all add: sample_results_def)
  moreover note h1 h2 lb
  ultimately show ?thesis
    by (intro conjI) assumption+
qed

text \<open>
  C9. Whatever \<open>execute_search\<close> returns, a search result that has a \<open>content\<close> has as
  content the first 2500 characters of the cleaned text of the first document loaded
  for its URL, so at most 2500 characters; and for a non-empty query whose provider
  results all have \<open>link\<close> and \<open>title\<close>, every result whose page load succeeds gets
  exactly that content.
\<close>

theorem stored_content_is_first_2500_characters:
  assumes "execute_search pv ld arg = (logs, Inr cmd)"
      and "u_search_results (update cmd) = Some rs"
  shows "(\<forall>sr \<in> set rs. \<forall>c. content sr = Some c \<longrightarrow>
            length c \<le> 2500
          \<and> (\<exists>d ds. ld (url sr) 15 = Inr (d # ds) \<and> c = take 2500 (clean_text d)))
       \<and> (\<forall>q results i d ds.
            arg = Some q \<and> q \<noteq> [] \<and> pv q 2 = Inr results
          \<and> (\<forall>r \<in> set results. pr_link r \<noteq> None \<and> pr_title r \<noteq> None)
          \<and> i < length results \<and> ld (the (pr_link (results ! i))) 15 = Inr (d # ds)
          \<longrightarrow> i < length rs \<and> content (rs ! i) = Some (take 2500 (clean_text d)))"
proof (intro conjI allI impI ballI)
  fix sr c
  assume sr: "sr \<in> set rs" and c: "content sr = Some c"
  have upd: "u_search_results (update (search_results_command xs)) = Some xs" for xs
    by (simp add: search_results_command_def no_update_def)
  from execute_search_cases [of pv ld arg]
  have "\<exists>d ds. ld (url sr) 15 = Inr (d # ds) \<and> c = take 2500 (clean_text d)"
  proof
    assume "\<exists>logs. execute_search pv ld arg = (logs, Inr (search_results_command []))"
    with assms upd [of "[]"] have "rs = []" by auto
    with sr show ?thesis by simp
  next
    assume "\<exists>q results logs rs.
         search_loop ld q results [] [] = (logs, Inr rs)
       \<and> execute_search pv ld arg = (logs, Inr (search_results_command rs))"
    then obtain q results logs' rs' where
      sl: "search_loop ld q results [] [] = (logs', Inr rs')" and
      ex: "execute_search pv ld arg = (logs', Inr (search_results_command rs'))"
      by blast
    from ex assms upd [of rs'] have "rs' = rs" by auto
    with search_loop_content [OF sl] sr c show ?thesis by simp
  qed
  then show "length c \<le> 2500" and "\<exists>d ds. ld (url sr) 15 = Inr (d # ds) \<and> c = take 2500 (clean_text d)"
    by auto
next
  fix q results i d ds
  assume h: "arg = Some q \<and> q \<noteq> [] \<and> pv q 2 = Inr results
          \<and> (\<forall>r \<in> set results. pr_link r \<noteq> None \<and> pr_title r \<noteq> None)
          \<and> i < length results \<and> ld (the (pr_link (results ! i))) 15 = Inr (d # ds)"
  then obtain logs' where
    "execute_search pv ld (Some q) =
       (logs', Inr (search_results_command (map (appended_entry ld q) results)))"
    using execute_search_wellformed [of q pv results ld] by blast
  with assms h have rs: "rs = map (appended_entry ld q) results"
    by (auto simp: search_results_command_def no_update_def)
  with h show "i < length rs" by simp
  from rs h show "content (rs ! i) = Some (take 2500 (clean_text d))"
    by (simp add: appended_entry_def load_content_def load_timeout_def)
qed

lemma clean_text_no_space:
  assumes "t \<noteq> []" and "\<forall>c \<in> set t. \<not> is_space c"
  shows "clean_text t = t"
proof -
  have "is_space 10"
    by (simp add: is_space_def)
  with assms(2) have nl: "10 \<notin> set t"
    by blast
  have sub: "re_sub_blank_lines t = t"
    using nl by (induction t) auto
  have spl: "split 10 t = [t]"
    using nl by (induction t) auto
  have d1: "dropWhile is_space t = t"
    using assms by (cases t) auto
  have "rev t \<noteq> []" and "\<forall>c \<in> set (rev t). \<not> is_space c"
    using assms by auto
  then have d2: "dropWhile is_space (rev t) = rev t"
    by (cases "rev t") auto
  have "strip t = t"
    by (simp add: strip_def d1 d2)
  with sub spl assms(1) show ?thesis
    by (simp add: clean_text_def)
qed

theorem stored_content_is_first_2500_characters_witness:
  "\<exists>logs cmd rs.
      execute_search sample_provider long_loader (Some (ascii ''tokyo weather'')) = (logs, Inr cmd)
    \<and> u_search_results (update cmd) = Some rs
    \<and> length long_page = 3000
    \<and> long_loader (ascii ''http://a.example'') 15 = Inr [long_page]
    \<and> content (rs ! 0) = Some (replicate 2500 120)
    \<and> length (the (content (rs ! 0))) = 2500"
proof -
  let ?q = "ascii ''tokyo weather''"
  have h1: "?q \<noteq> []" and ne: "?q \<noteq> ascii ''down''"
    by (simp_all add: ascii_def)
  have h2: "sample_provider ?q 2 = Inr sample_results"
    using ne by (simp add: sample_provider_def sample_results_def)
  have h3: "\<forall>r \<in> set sample_results. pr_link r \<noteq> None \<and> pr_title r \<noteq> None"
    by (simp add: sample_results_def)
  have h4: "0 < length sample_results"
    by (simp add: sample_results_def)
  have h5: "long_loader (the (pr_link (sample_results ! 0))) 15 = Inr (long_page # [])"
    by (simp add: long_loader_def)
  have clean: "clean_text long_page = long_page"
    by (rule clean_text_no_space) (simp_all add: long_page_def is_space_def)
  from execute_search_command [of sample_provider long_loader "Some ?q"]
  obtain logs rs where
    ex: "execute_search sample_provider long_loader (Some ?q) = (logs, Inr (search_results_command rs))"
    by blast
  have upd: "u_search_results (update (search_results_command rs)) = Some rs"
    by (simp add: search_results_command_def no_update_def)
  note main = stored_content_is_first_2500_characters [OF ex upd]
  from main have "\<forall>sr \<in> set rs. \<forall>c. content sr = Some c \<longrightarrow>
            length c \<le> 2500
          \<and> (\<exists>d ds. long_loader (url sr) 15 = Inr (d # ds) \<and> c = take 2500 (clean_text d))"
    by (rule conjunct1)
  then have bound: "\<forall>sr \<in> set rs. \<forall>c. content sr = Some c \<longrightarrow> length c \<le> 2500"
    by simp
  from main have fw: "\<forall>q results i d ds.
            Some ?q = Some q \<and> q \<noteq> [] \<and> sample_provider q 2 = Inr results
          \<and> (\<forall>r \<in> set results. pr_link r \<noteq> None \<and> pr_title r \<noteq> None)
          \<and> i < length results \<and> long_loader (the (pr_link (results ! i))) 15 = Inr (d # ds)
          \<longrightarrow> i < length rs \<and> content (rs ! i) = Some (take 2500 (clean_text d))"
    by (rule conjunct2)
  from fw [rule_format, of ?q sample_results 0 long_page "[]"] h1 h2 h3 h4 h5
  have "content (rs ! 0) = Some (take 2500 (clean_text long_page))"
    by simp
  then have c0: "content (rs ! 0) = Some (replicate 2500 120)"
    by (simp add: clean) (simp add: long_page_def)
  have "length long_page = 3000" and "long_loader (ascii ''http://a.example'') 15 = Inr [long_page]"
    by (simp_all add: long_page_def long_loader_def)
  moreover from c0 have "length (the (content (rs ! 0))) = 2500"
    by simp
  moreover note ex upd c0
  ultimately show ?thesis
    by (intro exI [of _ logs] exI [of _ "search_results_command rs"] exI [of _ rs] conjI)
       assumption+
qed

text \<open>
  C3. The specification says that a query whose provider call fails is degraded to
  zero results without an exception, and that folding its empty update in through the
  reducer leaves the results of the round's other queries in the merged list. The code
  does the first and not the second, as this round shows. Two queries are dispatched; the
  provider answers the first with two results and fails on the second.
  \<open>execute_search\<close> does not raise on the failing query: it logs the error and
  returns the update \<open>search_results = []\<close> towards \<open>generate_task_result\<close>. With the
  first query alone the merged list holds its two results; with both updates folded in
  by \<open>merge_search_results\<close>, in the order of the \<open>Send\<close>s, the merged list is empty:
  the reducer reads the empty list as its signal to clear, and the results of the first
  query are lost.
\<close>

theorem failed_query_clears_other_results:
  "execute_search sample_provider sample_loader (Some (ascii ''down'')) =
     ([(ERROR, ''execute_search'')], Inr (search_results_command []))
   \<and> map_sum id (\<lambda>s. length (search_results s))
        (run_sends sample_env [Some (ascii ''tokyo weather'')] fresh_state) = Inr 2
   \<and> map_sum id search_results
        (run_sends sample_env [Some (ascii ''tokyo weather''), Some (ascii ''down'')] fresh_state)
      = Inr []
   \<and> merge_search_results (Some (search_results sample_state)) (Some []) = []
   \<and> search_results sample_state \<noteq> []"
proof -
  have env: "provider sample_env = sample_provider" "loader sample_env = sample_loader"
    by (simp_all add: sample_env_def)
  have one: "map_sum id (\<lambda>s. length (search_results s))
        (run_sends sample_env [Some (ascii ''tokyo weather'')] fresh_state) = Inr 2"
    by (simp add: env execute_sample search_results_command_def no_update_def apply_update_def
          merge_search_results_def fresh_state_def)
  have two: "map_sum id search_results
        (run_sends sample_env [Some (ascii ''tokyo weather''), Some (ascii ''down'')] fresh_state)
      = Inr []"
    by (simp add: env execute_sample execute_down search_results_command_def no_update_def
          apply_update_def merge_search_results_def fresh_state_def)
  have "merge_search_results (Some (search_results sample_state)) (Some []) = []"
    by (simp add: merge_search_results_def)
  moreover have "search_results sample_state \<noteq> []"
    by (simp add: sample_state_def)
  ultimately show ?thesis using execute_down one two by simp
qed

section \<open>Properties of the planner\<close>

lemma str_value: "foldl (\<lambda>a d. 10 * a + (d - 48)) 0 (str n) = n"
proof (induction n rule: str.induct)
  case (1 n)
  show ?case
  proof (cases "n < 10")
    case True
    then show ?thesis by (subst str.simps) simp
  next
    case False
    with 1 show ?thesis by (subst str.simps) simp
  qed
qed

lemma str_inj: "inj str"
  by (rule inj_on_inverseI [where g = "foldl (\<lambda>a d. 10 * a + (d - 48)) 0"]) (rule str_value)

lemma distinct_str_upt: "distinct (map str [0..<n])"
  by (simp add: distinct_map inj_on_subset [OF str_inj] del: str.simps)

text \<open>
  C6. When the model returns a plan without tasks, \<open>plan_tasks\<close> raises: it logs the
  error, raises, logs again in its handler and raises again, and issues no command;
  the run of the whole graph ends with that exception.
  When the plan has \<open>N \<ge> 1\<close> descriptions, it issues one command that writes \<open>N\<close>
  tasks and dispatches \<open>N\<close> sends to the web-search sub-graph; the task and the send
  at position \<open>i\<close> carry the id \<open>str(i)\<close> and the \<open>i\<close>-th description, the task has no
  result yet, the send starts with attempt 0 and not completed, and the ids are
  pairwise distinct.
\<close>

theorem plan_tasks_raises_or_fans_out:
  assumes "model (messages state) = Inr plan"
  shows "(plan_tasks_of plan = [] \<longrightarrow>
            plan_tasks model state =
              ([(ERROR, ''plan_tasks''), (ERROR, ''plan_tasks'')], Inl RuntimeError)
          \<and> run_graph model env answer_model' state = Inl RuntimeError)
       \<and> (plan_tasks_of plan \<noteq> [] \<longrightarrow>
            (\<exists>initial_tasks sends.
               plan_tasks model state =
                 ([], Inr \<lparr>p_update = \<lparr>p_messages = None, p_tasks = Some initial_tasks,
                                        p_final_answer = None\<rparr>,
                           p_goto = Websearch_sends sends\<rparr>)
             \<and> length initial_tasks = length (plan_tasks_of plan)
             \<and> length sends = length (plan_tasks_of plan)
             \<and> (\<forall>i < length (plan_tasks_of plan).
                   initial_tasks ! i =
                     \<lparr>task_id = str i, task_description = plan_tasks_of plan ! i,
                      task_result = None\<rparr>
                 \<and> sends ! i =
                     \<lparr>in_task_id = str i, in_task_description = plan_tasks_of plan ! i,
                      in_attempt = 0, in_completed = False\<rparr>)
             \<and> distinct (map task_id initial_tasks)))"
proof (intro conjI impI)
  assume "plan_tasks_of plan = []"
  with assms show "plan_tasks model state =
      ([(ERROR, ''plan_tasks''), (ERROR, ''plan_tasks'')], Inl RuntimeError)"
    by (simp add: plan_tasks_def)
  then show "run_graph model env answer_model' state = Inl RuntimeError"
    by (simp add: run_graph_def)
next
  assume ne: "plan_tasks_of plan \<noteq> []"
  let ?ds = "plan_tasks_of plan"
  let ?ts = "map (\<lambda>(idx, d). \<lparr>task_id = str idx, task_description = d, task_result = None\<rparr>)
               (enumerate 0 ?ds)"
  let ?ss = "map (\<lambda>(idx, d). \<lparr>in_task_id = str idx, in_task_description = d,
                                in_attempt = 0, in_completed = False\<rparr>) (enumerate 0 ?ds)"
  have run: "plan_tasks model state =
                 ([], Inr \<lparr>p_update = \<lparr>p_messages = None, p_tasks = Some ?ts,
                                        p_final_answer = None\<rparr>,
                           p_goto = Websearch_sends ?ss\<rparr>)"
    using assms ne by (simp add: plan_tasks_def del: str.simps)
  have "map task_id ?ts = map (str \<circ> fst) (enumerate 0 ?ds)"
    by (simp add: case_prod_unfold comp_def del: str.simps)
  also have "\<dots> = map str (map fst (enumerate 0 ?ds))"
    by (simp only: map_map)
  also have "\<dots> = map str [0..<length ?ds]"
    by (simp only: map_fst_enumerate add_0)
  finally have ids: "map task_id ?ts = map str [0..<length ?ds]" .
  have nth: "?ts ! i = \<lparr>task_id = str i, task_description = ?ds ! i, task_result = None\<rparr>
           \<and> ?ss ! i = \<lparr>in_task_id = str i, in_task_description = ?ds ! i,
                          in_attempt = 0, in_completed = False\<rparr>"
    if "i < length ?ds" for i
    using that by (simp add: nth_enumerate_eq del: str.simps)
  have "distinct (map task_id ?ts)"
    unfolding ids by (rule distinct_str_upt)
  with run nth show "\<exists>initial_tasks sends.
               plan_tasks model state =
                 ([], Inr \<lparr>p_update = \<lparr>p_messages = None, p_tasks = Some initial_tasks,
                                        p_final_answer = None\<rparr>,
                           p_goto = Websearch_sends sends\<rparr>)
             \<and> length initial_tasks = length (plan_tasks_of plan)
             \<and> length sends = length (plan_tasks_of plan)
             \<and> (\<forall>i < length (plan_tasks_of plan).
                   initial_tasks ! i =
                     \<lparr>task_id = str i, task_description = plan_tasks_of plan ! i,
                      task_result = None\<rparr>
                 \<and> sends ! i =
                     \<lparr>in_task_id = str i, in_task_description = plan_tasks_of plan ! i,
                      in_attempt = 0, in_completed = False\<rparr>)
             \<and> distinct (map task_id initial_tasks)"
    by (intro exI [of _ ?ts] exI [of _ ?ss]) (simp del: str.simps)
qed

theorem plan_tasks_raises_or_fans_out_witness:
  "plan_tasks (\<lambda>ms. Inr empty_plan) sample_base =
     ([(ERROR, ''plan_tasks''), (ERROR, ''plan_tasks'')], Inl RuntimeError)
   \<and> (\<exists>initial_tasks sends.
         plan_tasks (\<lambda>ms. Inr sample_plan) sample_base =
           ([], Inr \<lparr>p_update = \<lparr>p_messages = None, p_tasks = Some initial_tasks,
                                  p_final_answer = None\<rparr>,
                     p_goto = Websearch_sends sends\<rparr>)
       \<and> length initial_tasks = 2 \<and> length sends = 2
       \<and> initial_tasks ! 0 = \<lparr>task_id = [48], task_description = ascii ''weather in Tokyo'',
                               task_result = None\<rparr>
       \<and> initial_tasks ! 1 = \<lparr>task_id = [49], task_description = ascii ''weather in Saitama'',
                               task_result = None\<rparr>
       \<and> sends ! 1 = \<lparr>in_task_id = [49], in_task_description = ascii ''weather in Saitama'',
                       in_attempt = 0, in_completed = False\<rparr>)"
proof -
  have e: "plan_tasks_of empty_plan = []"
    by (simp add: empty_plan_def)
  have p: "plan_tasks_of sample_plan = [ascii ''weather in Tokyo'', ascii ''weather in Saitama'']"
    by (simp add: sample_plan_def)
  have 1: "plan_tasks (\<lambda>ms. Inr empty_plan) sample_base =
     ([(ERROR, ''plan_tasks''), (ERROR, ''plan_tasks'')], Inl RuntimeError)"
    using plan_tasks_raises_or_fans_out [of "\<lambda>ms. Inr empty_plan" sample_base empty_plan] e
    by simp
  from plan_tasks_raises_or_fans_out [of "\<lambda>ms. Inr sample_plan" sample_base sample_plan] p
  obtain initial_tasks sends where
    run: "plan_tasks (\<lambda>ms. Inr sample_plan) sample_base =
           ([], Inr \<lparr>p_update = \<lparr>p_messages = None, p_tasks = Some initial_tasks,
                                  p_final_answer = None\<rparr>,
                     p_goto = Websearch_sends sends\<rparr>)" and
    len: "length initial_tasks = 2" "length sends = 2" and
    nth: "\<forall>i < 2. initial_tasks ! i =
                     \<lparr>task_id = str i, task_description = plan_tasks_of sample_plan ! i,
                      task_result = None\<rparr>
                 \<and> sends ! i =
                     \<lparr>in_task_id = str i, in_task_description = plan_tasks_of sample_plan ! i,
                      in_attempt = 0, in_completed = False\<rparr>"
    by auto
  from nth have n0: "initial_tasks ! 0 = \<lparr>task_id = [48], task_description = ascii ''weather in Tokyo'',
                               task_result = None\<rparr>"
    by (simp add: p)
  from nth [rule_format, of 1] have n1: "initial_tasks ! 1 =
      \<lparr>task_id = [49], task_description = ascii ''weather in Saitama'', task_result = None\<rparr>"
    and s1: "sends ! 1 = \<lparr>in_task_id = [49], in_task_description = ascii ''weather in Saitama'',
                       in_attempt = 0, in_completed = False\<rparr>"
    by (simp_all add: p)
  from run len n0 n1 s1 have "\<exists>initial_tasks sends.
         plan_tasks (\<lambda>ms. Inr sample_plan) sample_base =
           ([], Inr \<lparr>p_update = \<lparr>p_messages = None, p_tasks = Some initial_tasks,
                                  p_final_answer = None\<rparr>,
                     p_goto = Websearch_sends sends\<rparr>)
       \<and> length initial_tasks = 2 \<and> length sends = 2
       \<and> initial_tasks ! 0 = \<lparr>task_id = [48], task_description = ascii ''weather in Tokyo'',
                               task_result = None\<rparr>
       \<and> initial_tasks ! 1 = \<lparr>task_id = [49], task_description = ascii ''weather in Saitama'',
                               task_result = None\<rparr>
       \<and> sends ! 1 = \<lparr>in_task_id = [49], in_task_description = ascii ''weather in Saitama'',
                       in_attempt = 0, in_completed = False\<rparr>"
    by (intro exI [of _ initial_tasks] exI [of _ sends] conjI) assumption+
  with 1 show ?thesis by (intro conjI) assumption+
qed

lemma sublist_join: "p \<in> set parts \<Longrightarrow> sublist p (join sep parts)"
proof (induction sep parts rule: join.induct)
  case (1 sep)
  then show ?case by simp
next
  case (2 sep l)
  then show ?case by simp
next
  case (3 sep l l' ls)
  show ?case
  proof (cases "p = l")
    case True
    then show ?thesis by simp
  next
    case False
    with 3 have "sublist p (join sep (l' # ls))" by simp
    then obtain ps ss where "join sep (l' # ls) = ps @ p @ ss"
      by (auto simp: sublist_def)
    then have "join sep (l # l' # ls) = (l @ sep @ ps) @ p @ ss" by simp
    then show ?thesis unfolding sublist_def by blast
  qed
qed

lemma collect_map_Inr:
  "\<forall>x \<in> set xs. f x = Inr (g x) \<Longrightarrow> collect (map f xs) = Inr (map g xs)"
  by (induction xs) simp_all

lemma task_results_text_Inr:
  assumes "\<forall>t \<in> set ts. task_result t \<noteq> None"
  shows "task_results_text ts = Inr (join [10, 10] (map task_line (enumerate 0 ts)))"
proof -
  have "format_task p = Inr (task_line p)" if "p \<in> set (enumerate 0 ts)" for p
  proof -
    from that have "fst p < length ts" and "ts ! fst p = snd p"
      by (simp_all add: in_set_enumerate_eq)
    then have "snd p \<in> set ts"
      by (metis nth_mem)
    with assms obtain r where "task_result (snd p) = Some r" by auto
    then show ?thesis
      by (simp add: format_task_def task_line_def case_prod_unfold del: str.simps)
  qed
  then have "collect (map format_task (enumerate 0 ts)) = Inr (map task_line (enumerate 0 ts))"
    by (intro collect_map_Inr) blast
  then show ?thesis by (simp add: task_results_text_def)
qed

lemma task_in_results_text:
  assumes "t \<in> set ts"
  shows "sublist (task_description t) (join [10, 10] (map task_line (enumerate 0 ts)))"
    and "sublist (the (task_result t)) (join [10, 10] (map task_line (enumerate 0 ts)))"
proof -
  from assms obtain i where i: "i < length ts" "ts ! i = t"
    by (auto simp: in_set_conv_nth)
  then have "(i, t) \<in> set (enumerate 0 ts)"
    by (auto simp: in_set_enumerate_eq)
  then have "task_line (i, t) \<in> set (map task_line (enumerate 0 ts))"
    by simp
  then have "sublist (task_line (i, t)) (join [10, 10] (map task_line (enumerate 0 ts)))"
    by (rule sublist_join)
  then obtain ps ss where
    j: "join [10, 10] (map task_line (enumerate 0 ts)) = ps @ task_line (i, t) @ ss"
    by (auto simp: sublist_def)
  have "join [10, 10] (map task_line (enumerate 0 ts)) =
          (ps @ [12304, 12479, 12473, 12463] @ str (i + 1) @ [12305]) @ task_description t
            @ ([10, 32080, 26524, 58, 32] @ the (task_result t) @ ss)"
    unfolding j task_line_def by (simp del: str.simps)
  then show "sublist (task_description t) (join [10, 10] (map task_line (enumerate 0 ts)))"
    unfolding sublist_def by blast
  have "join [10, 10] (map task_line (enumerate 0 ts)) =
          (ps @ [12304, 12479, 12473, 12463] @ str (i + 1) @ [12305] @ task_description t
            @ [10, 32080, 26524, 58, 32]) @ the (task_result t) @ ss"
    unfolding j task_line_def by (simp del: str.simps)
  then show "sublist (the (task_result t)) (join [10, 10] (map task_line (enumerate 0 ts)))"
    unfolding sublist_def by blast
qed

text \<open>
  C7. \<open>generate_final_answer\<close> raises when the task list of the state is empty. When
  the list is not empty, every task has a result and the message history has a first
  message, the descriptions and results of all tasks are joined into one text; that
  text and the content of the first message are parts of the one prompt on which the
  model is called; the model's reply becomes \<open>final_answer\<close> (and the new AI message)
  of a command that ends the graph, and a failure of the model is raised again.
\<close>

theorem generate_final_answer_raises_or_synthesizes:
  "(tasks state = [] \<longrightarrow>
      generate_final_answer model state =
        ([(ERROR, ''generate_final_answer'')], Inl RuntimeError))
   \<and> (tasks state \<noteq> [] \<and> (\<forall>t \<in> set (tasks state). task_result t \<noteq> None)
        \<and> messages state \<noteq> [] \<longrightarrow>
      (\<exists>text prompt.
          task_results_text (tasks state) = Inr text
        \<and> prompt = final_answer_prompt (message_content (hd (messages state))) text
        \<and> sublist text prompt
        \<and> sublist (message_content (hd (messages state))) prompt
        \<and> (\<forall>t \<in> set (tasks state).
              sublist (task_description t) text \<and> sublist (the (task_result t)) text)
        \<and> (case model prompt of
              Inr response \<Rightarrow>
                generate_final_answer model state =
                  ([], Inr \<lparr>p_update = \<lparr>p_messages = Some [AIMessage response],
                                         p_tasks = None,
                                         p_final_answer = Some response\<rparr>,
                            p_goto = Planner_END\<rparr>)
            | Inl e \<Rightarrow>
                generate_final_answer model state =
                  ([(ERROR, ''generate_final_answer'')], Inl e))))"
proof (intro conjI impI)
  assume "tasks state = []"
  then show "generate_final_answer model state =
        ([(ERROR, ''generate_final_answer'')], Inl RuntimeError)"
    by (simp add: generate_final_answer_def)
next
  assume h: "tasks state \<noteq> [] \<and> (\<forall>t \<in> set (tasks state). task_result t \<noteq> None)
        \<and> messages state \<noteq> []"
  let ?text = "join [10, 10] (map task_line (enumerate 0 (tasks state)))"
  let ?uq = "message_content (hd (messages state))"
  let ?prompt = "final_answer_prompt ?uq ?text"
  from h have tx: "task_results_text (tasks state) = Inr ?text"
    by (intro task_results_text_Inr) simp
  from h obtain m ms where ms: "messages state = m # ms"
    by (cases "messages state") auto
  have "\<exists>ps ss. ?prompt = ps @ ?text @ ss"
    unfolding final_answer_prompt_def append_assoc [symmetric] by blast
  then have s1: "sublist ?text ?prompt"
    by (simp only: sublist_def)
  have "\<exists>ps ss. ?prompt = ps @ ?uq @ ss"
    unfolding final_answer_prompt_def by blast
  then have s2: "sublist ?uq ?prompt"
    by (simp only: sublist_def)
  have s3: "\<forall>t \<in> set (tasks state).
              sublist (task_description t) ?text \<and> sublist (the (task_result t)) ?text"
    using task_in_results_text by blast
  have run: "(case model ?prompt of
              Inr response \<Rightarrow>
                generate_final_answer model state =
                  ([], Inr \<lparr>p_update = \<lparr>p_messages = Some [AIMessage response],
                                         p_tasks = None,
                                         p_final_answer = Some response\<rparr>,
                            p_goto = Planner_END\<rparr>)
            | Inl e \<Rightarrow>
                generate_final_answer model state =
                  ([(ERROR, ''generate_final_answer'')], Inl e))"
    using h tx ms by (simp add: generate_final_answer_def split: sum.split)
  from tx s1 s2 s3 run
  show "\<exists>text prompt.
          task_results_text (tasks state) = Inr text
        \<and> prompt = final_answer_prompt (message_content (hd (messages state))) text
        \<and> sublist text prompt
        \<and> sublist (message_content (hd (messages state))) prompt
        \<and> (\<forall>t \<in> set (tasks state).
              sublist (task_description t) text \<and> sublist (the (task_result t)) text)
        \<and> (case model prompt of
              Inr response \<Rightarrow>
                generate_final_answer model state =
                  ([], Inr \<lparr>p_update = \<lparr>p_messages = Some [AIMessage response],
                                         p_tasks = None,
                                         p_final_answer = Some response\<rparr>,
                            p_goto = Planner_END\<rparr>)
            | Inl e \<Rightarrow>
                generate_final_answer model state =
                  ([(ERROR, ''generate_final_answer'')], Inl e))"
    by (intro exI [of _ ?text] exI [of _ ?prompt] conjI refl) assumption+
qed

theorem generate_final_answer_raises_or_synthesizes_witness:
  "generate_final_answer (\<lambda>p. Inr (ascii ''sunny, then rain'')) sample_base =
     ([(ERROR, ''generate_final_answer'')], Inl RuntimeError)
   \<and> tasks done_base = [task1_done, task2_done]
   \<and> map task_result (tasks done_base) = [Some (ascii ''sunny''), Some (ascii ''rain'')]
   \<and> messages done_base = [HumanMessage (ascii ''weather in Tokyo and Saitama?'')]
   \<and> generate_final_answer (\<lambda>p. Inr (ascii ''sunny, then rain'')) done_base =
       ([], Inr \<lparr>p_update = \<lparr>p_messages = Some [AIMessage (ascii ''sunny, then rain'')],
                              p_tasks = None,
                              p_final_answer = Some (ascii ''sunny, then rain'')\<rparr>,
                 p_goto = Planner_END\<rparr>)
   \<and> snd (generate_final_answer (\<lambda>p. Inl ModelError) done_base) = Inl ModelError"
proof -
  let ?m = "\<lambda>p :: pystr. Inr (ascii ''sunny, then rain'') :: error + pystr"
  let ?f = "\<lambda>p :: pystr. Inl ModelError :: error + pystr"
  have t0: "tasks sample_base = []"
    by (simp add: sample_base_def)
  have t1: "tasks done_base = [task1_done, task2_done]"
    by (simp add: done_base_def)
  have r: "map task_result (tasks done_base) = [Some (ascii ''sunny''), Some (ascii ''rain'')]"
    by (simp add: t1 task1_done_def task2_done_def)
  have ms: "messages done_base = [HumanMessage (ascii ''weather in Tokyo and Saitama?'')]"
    by (simp add: done_base_def sample_base_def)
  have pre: "tasks done_base \<noteq> [] \<and> (\<forall>t \<in> set (tasks done_base). task_result t \<noteq> None)
        \<and> messages done_base \<noteq> []"
    by (simp add: t1 ms task1_done_def task2_done_def)
  have 1: "generate_final_answer ?m sample_base =
     ([(ERROR, ''generate_final_answer'')], Inl RuntimeError)"
    using generate_final_answer_raises_or_synthesizes [of sample_base ?m] t0 by simp
  have 2: "generate_final_answer ?m done_base =
       ([], Inr \<lparr>p_update = \<lparr>p_messages = Some [AIMessage (ascii ''sunny, then rain'')],
                              p_tasks = None,
                              p_final_answer = Some (ascii ''sunny, then rain'')\<rparr>,
                 p_goto = Planner_END\<rparr>)"
    using generate_final_answer_raises_or_synthesizes [of done_base ?m] pre by auto
  have "generate_final_answer ?f done_base = ([(ERROR, ''generate_final_answer'')], Inl ModelError)"
    using generate_final_answer_raises_or_synthesizes [of done_base ?f] pre by auto
  then have 3: "snd (generate_final_answer ?f done_base) = Inl ModelError"
    by simp
  from 1 t1 r ms 2 3 show ?thesis
    by (intro conjI) assumption+
qed

section \<open>Properties of the sub-graph run\<close>

lemma apply_search_results_command:
  "attempt (apply_update st (update (search_results_command rs))) = attempt st"
  "completed (apply_update st (update (search_results_command rs))) = completed st"
  by (simp_all add: search_results_command_def apply_update_def no_update_def)

lemma run_sends_keeps:
  "\<exists>st'. run_sends env args st = Inr st' \<and> attempt st' = attempt st \<and> completed st' = completed st"
proof (induction args arbitrary: st)
  case Nil
  then show ?case by simp
next
  case (Cons a args)
  from execute_search_command [of "provider env" "loader env" a] obtain logs rs where
    ex: "execute_search (provider env) (loader env) a = (logs, Inr (search_results_command rs))"
    by blast
  from Cons [of "apply_update st (update (search_results_command rs))"] ex
  show ?case by (simp add: apply_search_results_command)
qed

lemma fan_out_next:
  assumes "args \<noteq> []"
  shows "\<exists>st'. fan_out env args st = Next (Goto Generate_task_result) st'
           \<and> attempt st' = attempt st \<and> completed st' = completed st"
  using assms run_sends_keeps [of env args st] by (auto simp: fan_out_def)

lemma step_next:
  assumes "step env t st = Next t' st'"
  shows "(t = Goto Evaluate_task_result \<and> attempt st' = Some (get_attempt st + 1)
            \<and> (t' = Goto END \<and> completed st' = Some True
                \<or> get_attempt st + 1 < 2
                  \<and> (t' = Goto Generate_search_queries \<or> t' = Goto Generate_task_result)))
       \<or> (t \<noteq> Goto Evaluate_task_result \<and> t \<noteq> Goto END \<and> attempt st' = attempt st
            \<and> t' \<noteq> Goto END \<and> t' \<noteq> Sends [])"
proof (cases t)
  case (Sends args)
  show ?thesis
  proof (cases "args = []")
    case True
    with Sends assms show ?thesis by (simp add: fan_out_def)
  next
    case False
    from fan_out_next [OF False, of env st] Sends assms show ?thesis by auto
  qed
next
  case (Goto n)
  show ?thesis
  proof (cases n)
    case Generate_search_queries
    with Goto assms show ?thesis
      by (auto simp: follow_def generate_search_queries_def apply_update_def no_update_def
            split: sum.splits if_splits)
  next
    case Execute_search
    from fan_out_next [of "[None]" env st] Goto Execute_search assms show ?thesis by auto
  next
    case Generate_task_result
    with Goto assms show ?thesis
      by (auto simp: follow_def generate_task_result_def apply_update_def no_update_def
            split: sum.splits)
  next
    case Evaluate_task_result
    with Goto assms show ?thesis
      by (auto simp: follow_def evaluate_task_result_def apply_update_def no_update_def Let_def
            split: sum.splits if_splits)
  next
    case END
    with Goto assms show ?thesis by simp
  qed
qed

lemma step_halt:
  assumes "step env t st = Halt r"
  shows "(t = Goto END \<and> r = Inr st) \<or> (t = Sends [] \<and> r = Inr st)
       \<or> (\<exists>e. r = Inl e \<and> (queries_model env st = Inl e \<or> answer_model env st = Inl e
                              \<or> evaluation_model env st = Inl e))"
proof (cases t)
  case (Sends args)
  show ?thesis
  proof (cases "args = []")
    case True
    with Sends assms show ?thesis by (simp add: fan_out_def)
  next
    case False
    from fan_out_next [OF False, of env st] Sends assms show ?thesis by auto
  qed
next
  case (Goto n)
  show ?thesis
  proof (cases n)
    case Generate_search_queries
    with Goto assms show ?thesis
      by (auto simp: follow_def generate_search_queries_def split: sum.splits if_splits)
  next
    case Execute_search
    from fan_out_next [of "[None]" env st] Goto Execute_search assms show ?thesis by auto
  next
    case Generate_task_result
    with Goto assms show ?thesis
      by (auto simp: follow_def generate_task_result_def split: sum.splits)
  next
    case Evaluate_task_result
    with Goto assms show ?thesis
      by (auto simp: follow_def evaluate_task_result_def Let_def split: sum.splits if_splits)
  next
    case END
    with Goto assms show ?thesis by simp
  qed
qed

lemma run_unfold_halt:
  "step env t st = Halt r \<Longrightarrow> run_websearch env t st = ([(t, st)], r)"
  by (subst run_websearch.simps) simp

lemma run_unfold_next:
  "step env t st = Next t' st' \<Longrightarrow>
   run_websearch env t st =
     ((t, st) # fst (run_websearch env t' st'), snd (run_websearch env t' st'))"
  by (subst run_websearch.simps) (simp add: case_prod_unfold)

lemma run_trace_nonempty: "fst (run_websearch env t st) \<noteq> []"
  by (cases "step env t st") (simp_all add: run_unfold_halt run_unfold_next)

lemma run_invariant:
  assumes "attempt st = Some k" and "0 \<le> k"
      and "k \<le> 1 \<or> (k = 2 \<and> t = Goto END)"
      and "t \<noteq> Sends []"
      and "t = Goto END \<longrightarrow> completed st = Some True"
  shows "(\<forall>c \<in> set (fst (run_websearch env t st)).
            \<exists>j. attempt (snd c) = Some j \<and> 0 \<le> j \<and> j \<le> 2)
       \<and> int (length (filter (\<lambda>c. fst c = Goto Evaluate_task_result)
                 (fst (run_websearch env t st)))) \<le> 2 - k
       \<and> (\<forall>s'. snd (run_websearch env t st) = Inr s' \<longrightarrow>
             completed s' = Some True \<and> last (fst (run_websearch env t st)) = (Goto END, s'))
       \<and> ((\<forall>s. \<exists>x. queries_model env s = Inr x) \<and> (\<forall>s. \<exists>x. answer_model env s = Inr x)
            \<and> (\<forall>s. \<exists>x. evaluation_model env s = Inr x)
            \<longrightarrow> (\<exists>s'. snd (run_websearch env t st) = Inr s'))"
  using assms
proof (induction env t st arbitrary: k rule: run_websearch.induct)
  case (1 env t st)
  have k2: "k \<le> 2" using "1.prems" by auto
  have ga: "get_attempt st = k" using "1.prems"(1) by (simp add: get_attempt_def)
  show ?case
  proof (cases "step env t st")
    case (Halt r)
    note run = run_unfold_halt [OF Halt]
    have ev: "t = Goto Evaluate_task_result \<Longrightarrow> k \<le> 1"
      using "1.prems"(3) by auto
    have a: "\<forall>c \<in> set (fst (run_websearch env t st)).
            \<exists>j. attempt (snd c) = Some j \<and> 0 \<le> j \<and> j \<le> 2"
      using "1.prems"(1,2) k2 by (simp add: run)
    have b: "int (length (filter (\<lambda>c. fst c = Goto Evaluate_task_result)
                 (fst (run_websearch env t st)))) \<le> 2 - k"
      using ev k2 by (simp add: run)
    have c: "\<forall>s'. snd (run_websearch env t st) = Inr s' \<longrightarrow>
             completed s' = Some True \<and> last (fst (run_websearch env t st)) = (Goto END, s')"
      using step_halt [OF Halt] "1.prems"(4,5) by (auto simp: run)
    have d: "(\<forall>s. \<exists>x. queries_model env s = Inr x) \<and> (\<forall>s. \<exists>x. answer_model env s = Inr x)
            \<and> (\<forall>s. \<exists>x. evaluation_model env s = Inr x)
            \<longrightarrow> (\<exists>s'. snd (run_websearch env t st) = Inr s')"
    proof
      assume tot: "(\<forall>s. \<exists>x. queries_model env s = Inr x) \<and> (\<forall>s. \<exists>x. answer_model env s = Inr x)
            \<and> (\<forall>s. \<exists>x. evaluation_model env s = Inr x)"
      from tot obtain x y z where "queries_model env st = Inr x" "answer_model env st = Inr y"
        "evaluation_model env st = Inr z" by blast
      with step_halt [OF Halt] have "r = Inr st" by auto
      then show "\<exists>s'. snd (run_websearch env t st) = Inr s'" by (simp add: run)
    qed
    from a b c d show ?thesis by (intro conjI)
  next
    case (Next t' st')
    note run = run_unfold_next [OF Next]
    let ?tr = "fst (run_websearch env t' st')"
    let ?r = "snd (run_websearch env t' st')"
    from step_next [OF Next]
    obtain k' where k': "attempt st' = Some k'" "0 \<le> k'" "k' \<le> 1 \<or> (k' = 2 \<and> t' = Goto END)"
        "t' \<noteq> Sends []" "t' = Goto END \<longrightarrow> completed st' = Some True"
      and cnt: "(if t = Goto Evaluate_task_result then 1 else 0) + (2 - k') \<le> 2 - k"
    proof (elim disjE conjE)
      assume e: "t = Goto Evaluate_task_result" "attempt st' = Some (get_attempt st + 1)"
        "t' = Goto END" "completed st' = Some True"
      from "1.prems"(3) e(1) have "k \<le> 1" by auto
      with e ga "1.prems"(2) show ?thesis by (intro that [of "k + 1"]) auto
    next
      assume e: "t = Goto Evaluate_task_result" "attempt st' = Some (get_attempt st + 1)"
        "get_attempt st + 1 < 2" "t' = Goto Generate_search_queries"
      with ga "1.prems"(2) show ?thesis by (intro that [of "k + 1"]) auto
    next
      assume e: "t = Goto Evaluate_task_result" "attempt st' = Some (get_attempt st + 1)"
        "get_attempt st + 1 < 2" "t' = Goto Generate_task_result"
      with ga "1.prems"(2) show ?thesis by (intro that [of "k + 1"]) auto
    next
      assume e: "t \<noteq> Goto Evaluate_task_result" "t \<noteq> Goto END" "attempt st' = attempt st"
        "t' \<noteq> Goto END" "t' \<noteq> Sends []"
      with "1.prems" show ?thesis by (intro that [of k]) auto
    qed
    note IH = "1.IH" [OF Next k']
    from IH have ih_a: "\<forall>c \<in> set ?tr. \<exists>j. attempt (snd c) = Some j \<and> 0 \<le> j \<and> j \<le> 2"
      by (rule conjunct1)
    from IH have ih_b: "int (length (filter (\<lambda>c. fst c = Goto Evaluate_task_result) ?tr)) \<le> 2 - k'"
      by (elim conjE)
    from IH have ih_c: "\<forall>s'. ?r = Inr s' \<longrightarrow> completed s' = Some True \<and> last ?tr = (Goto END, s')"
      by (elim conjE)
    from IH have ih_d: "(\<forall>s. \<exists>x. queries_model env s = Inr x) \<and> (\<forall>s. \<exists>x. answer_model env s = Inr x)
            \<and> (\<forall>s. \<exists>x. evaluation_model env s = Inr x) \<longrightarrow> (\<exists>s'. ?r = Inr s')"
      by (elim conjE)
    have a: "\<forall>c \<in> set (fst (run_websearch env t st)).
            \<exists>j. attempt (snd c) = Some j \<and> 0 \<le> j \<and> j \<le> 2"
      using ih_a "1.prems"(1,2) k2 by (simp add: run)
    have b: "int (length (filter (\<lambda>c. fst c = Goto Evaluate_task_result)
                 (fst (run_websearch env t st)))) \<le> 2 - k"
      using ih_b cnt by (simp add: run split: if_splits)
    have c: "\<forall>s'. snd (run_websearch env t st) = Inr s' \<longrightarrow>
             completed s' = Some True \<and> last (fst (run_websearch env t st)) = (Goto END, s')"
      using ih_c run_trace_nonempty [of env t' st'] by (simp add: run)
    have d: "(\<forall>s. \<exists>x. queries_model env s = Inr x) \<and> (\<forall>s. \<exists>x. answer_model env s = Inr x)
            \<and> (\<forall>s. \<exists>x. evaluation_model env s = Inr x)
            \<longrightarrow> (\<exists>s'. snd (run_websearch env t st) = Inr s')"
      using ih_d by (simp add: run)
    from a b c d show ?thesis by (intro conjI)
  qed
qed

text \<open>
  C1. A sub-graph run that starts at \<open>generate_search_queries\<close> with attempt counter 0
  is a total function of the collaborators and the state, so it ends, whatever the
  models, the provider and the loader return. In every configuration it visits the
  attempt counter is 0, 1 or 2; \<open>evaluate_task_result\<close> runs at most twice; a run that
  ends without an exception ends at \<open>END\<close> with \<open>completed\<close> set; and when none of the
  three model calls raises, the run does end without an exception. An evaluation that
  starts with the counter at 1 or more completes the task whatever the evaluator says.
\<close>

theorem subtask_completes_within_two_evaluations:
  assumes "attempt st = Some 0"
  shows "(\<forall>c \<in> set (fst (run_websearch env (Goto Generate_search_queries) st)).
            \<exists>j. attempt (snd c) = Some j \<and> 0 \<le> j \<and> j \<le> 2)
       \<and> length (filter (\<lambda>c. fst c = Goto Evaluate_task_result)
            (fst (run_websearch env (Goto Generate_search_queries) st))) \<le> 2
       \<and> (\<forall>s'. snd (run_websearch env (Goto Generate_search_queries) st) = Inr s' \<longrightarrow>
             completed s' = Some True
           \<and> last (fst (run_websearch env (Goto Generate_search_queries) st)) = (Goto END, s'))
       \<and> ((\<forall>s. \<exists>x. queries_model env s = Inr x) \<and> (\<forall>s. \<exists>x. answer_model env s = Inr x)
            \<and> (\<forall>s. \<exists>x. evaluation_model env s = Inr x)
            \<longrightarrow> (\<exists>s'. snd (run_websearch env (Goto Generate_search_queries) st) = Inr s'))
       \<and> (\<forall>s evaluation. evaluation_model env s = Inr evaluation \<and> 1 \<le> get_attempt s \<longrightarrow>
             (\<exists>s'. step env (Goto Evaluate_task_result) s = Next (Goto END) s'
                  \<and> completed s' = Some True \<and> attempt s' = Some (get_attempt s + 1)))"
proof -
  note inv = run_invariant [of st 0 "Goto Generate_search_queries" env]
  have pre: "attempt st = Some 0" "(0::int) \<le> 0"
    "(0::int) \<le> 1 \<or> ((0::int) = 2 \<and> Goto Generate_search_queries = Goto END)"
    "Goto Generate_search_queries \<noteq> Sends []"
    "Goto Generate_search_queries = Goto END \<longrightarrow> completed st = Some True"
    using assms by simp_all
  note main = inv [OF pre]
  from main have a: "\<forall>c \<in> set (fst (run_websearch env (Goto Generate_search_queries) st)).
            \<exists>j. attempt (snd c) = Some j \<and> 0 \<le> j \<and> j \<le> 2"
    by (rule conjunct1)
  from main have "int (length (filter (\<lambda>c. fst c = Goto Evaluate_task_result)
            (fst (run_websearch env (Goto Generate_search_queries) st)))) \<le> 2 - 0"
    by (elim conjE)
  then have b: "length (filter (\<lambda>c. fst c = Goto Evaluate_task_result)
            (fst (run_websearch env (Goto Generate_search_queries) st))) \<le> 2"
    by simp
  from main have c: "\<forall>s'. snd (run_websearch env (Goto Generate_search_queries) st) = Inr s' \<longrightarrow>
             completed s' = Some True
           \<and> last (fst (run_websearch env (Goto Generate_search_queries) st)) = (Goto END, s')"
    by (elim conjE)
  from main have d: "(\<forall>s. \<exists>x. queries_model env s = Inr x) \<and> (\<forall>s. \<exists>x. answer_model env s = Inr x)
            \<and> (\<forall>s. \<exists>x. evaluation_model env s = Inr x)
            \<longrightarrow> (\<exists>s'. snd (run_websearch env (Goto Generate_search_queries) st) = Inr s')"
    by (elim conjE)
  have e: "\<forall>s evaluation. evaluation_model env s = Inr evaluation \<and> 1 \<le> get_attempt s \<longrightarrow>
             (\<exists>s'. step env (Goto Evaluate_task_result) s = Next (Goto END) s'
                  \<and> completed s' = Some True \<and> attempt s' = Some (get_attempt s + 1))"
    by (simp add: follow_def evaluate_task_result_def Let_def apply_update_def no_update_def)
  from a b c d e show ?thesis by (intro conjI)
qed

lemma sample_round:
  "step sample_env (Goto Generate_search_queries) s =
     Next (Sends [Some (ascii ''tokyo weather'')])
       (s\<lparr>search_queries := search_queries s @ [ascii ''tokyo weather'']\<rparr>)"
  "step sample_env (Goto Generate_task_result) s =
     Next (Goto Evaluate_task_result) (s\<lparr>st_task_result := Some (ascii ''draft'')\<rparr>)"
  by (simp_all add: sample_env_def follow_def generate_search_queries_def
        generate_task_result_def apply_update_def no_update_def)

lemma sample_fan_out:
  "step sample_env (Sends [Some (ascii ''tokyo weather'')]) s =
     Next (Goto Generate_task_result)
       (apply_update s (update (search_results_command
          [\<lparr>query = ascii ''tokyo weather'', title = ascii ''Forecast'', url = ascii ''http://a.example'',
            snippet = ascii ''snip a'', content = Some (ascii ''Tokyo'' @ [10] @ ascii ''sunny, 25C'')\<rparr>,
           \<lparr>query = ascii ''tokyo weather'', title = ascii ''Radar'', url = ascii ''http://b.example'',
            snippet = [], content = None\<rparr>])))"
proof -
  have env: "provider sample_env = sample_provider" "loader sample_env = sample_loader"
    by (simp_all add: sample_env_def)
  show ?thesis
    by (simp add: fan_out_def env execute_sample)
qed

lemma sample_evaluate:
  "step sample_env (Goto Evaluate_task_result) s =
     (if 2 \<le> get_attempt s + 1
      then Next (Goto END)
             (apply_update s (no_update\<lparr>u_attempt := Some (get_attempt s + 1),
                u_completed := Some True,
                u_tasks := Some [\<lparr>task_id = get_task_id s,
                                  task_description = get_task_description s,
                                  task_result = Some (get_task_result s)\<rparr>]\<rparr>))
      else Next (Goto Generate_search_queries)
             (apply_update s (no_update\<lparr>u_attempt := Some (get_attempt s + 1),
                u_search_results := Some [],
                u_feedback := Some (Some (ascii ''add the date''))\<rparr>)))"
  by (simp add: sample_env_def follow_def evaluate_task_result_def Let_def ev_search_def)

lemma sample_run_nodes:
  "map (\<lambda>c. (fst c, attempt (snd c)))
     (fst (run_websearch sample_env (Goto Generate_search_queries) fresh_state)) =
     [(Goto Generate_search_queries, Some 0), (Sends [Some (ascii ''tokyo weather'')], Some 0),
      (Goto Generate_task_result, Some 0), (Goto Evaluate_task_result, Some 0),
      (Goto Generate_search_queries, Some 1), (Sends [Some (ascii ''tokyo weather'')], Some 1),
      (Goto Generate_task_result, Some 1), (Goto Evaluate_task_result, Some 1),
      (Goto END, Some 2)]"
proof -
  have halt: "step sample_env (Goto END) s = Halt (Inr s)" for s
    by simp
  show ?thesis
    by (simp add: run_websearch.simps sample_round sample_fan_out sample_evaluate halt
          fresh_state_def get_attempt_def apply_update_def no_update_def search_results_command_def
          del: step.simps)
qed

theorem subtask_completes_within_two_evaluations_witness:
  "attempt fresh_state = Some 0
   \<and> map (\<lambda>c. (fst c, attempt (snd c)))
       (fst (run_websearch sample_env (Goto Generate_search_queries) fresh_state)) =
       [(Goto Generate_search_queries, Some 0), (Sends [Some (ascii ''tokyo weather'')], Some 0),
        (Goto Generate_task_result, Some 0), (Goto Evaluate_task_result, Some 0),
        (Goto Generate_search_queries, Some 1), (Sends [Some (ascii ''tokyo weather'')], Some 1),
        (Goto Generate_task_result, Some 1), (Goto Evaluate_task_result, Some 1),
        (Goto END, Some 2)]
   \<and> length (filter (\<lambda>c. fst c = Goto Evaluate_task_result)
       (fst (run_websearch sample_env (Goto Generate_search_queries) fresh_state))) \<le> 2
   \<and> (\<exists>s'. snd (run_websearch sample_env (Goto Generate_search_queries) fresh_state) = Inr s'
          \<and> completed s' = Some True
          \<and> last (fst (run_websearch sample_env (Goto Generate_search_queries) fresh_state))
              = (Goto END, s'))"
proof -
  let ?run = "run_websearch sample_env (Goto Generate_search_queries) fresh_state"
  have h: "attempt fresh_state = Some 0"
    by (simp add: fresh_state_def)
  have tot: "(\<forall>s. \<exists>x. queries_model sample_env s = Inr x)
           \<and> (\<forall>s. \<exists>x. answer_model sample_env s = Inr x)
           \<and> (\<forall>s. \<exists>x. evaluation_model sample_env s = Inr x)"
    by (simp add: sample_env_def)
  note main = subtask_completes_within_two_evaluations [OF h, of sample_env]
  from main have b: "length (filter (\<lambda>c. fst c = Goto Evaluate_task_result) (fst ?run)) \<le> 2"
    by (elim conjE)
  from main have c: "\<forall>s'. snd ?run = Inr s' \<longrightarrow>
      completed s' = Some True \<and> last (fst ?run) = (Goto END, s')"
    by (elim conjE)
  from main have "(\<forall>s. \<exists>x. queries_model sample_env s = Inr x)
           \<and> (\<forall>s. \<exists>x. answer_model sample_env s = Inr x)
           \<and> (\<forall>s. \<exists>x. evaluation_model sample_env s = Inr x) \<longrightarrow> (\<exists>s'. snd ?run = Inr s')"
    by (elim conjE)
  with tot obtain s' where s': "snd ?run = Inr s'"
    by blast
  with c have "completed s' = Some True" and "last (fst ?run) = (Goto END, s')"
    by simp_all
  with s' have d: "\<exists>s'. snd ?run = Inr s' \<and> completed s' = Some True
      \<and> last (fst ?run) = (Goto END, s')"
    by blast
  from h sample_run_nodes b d show ?thesis
    by (intro conjI) assumption+
qed

section \<open>Properties of the whole graph\<close>

lemma step_keeps_task:
  assumes "step env t st = Next t' st'"
  shows "(t = Goto Evaluate_task_result \<and> t' = Goto END
            \<and> tasks st' = update_task (tasks st)
                 (Some [\<lparr>task_id = get_task_id st, task_description = get_task_description st,
                         task_result = Some (get_task_result st)\<rparr>]))
       \<or> (t' \<noteq> Goto END \<and> t' \<noteq> Sends [] \<and> tasks st' = tasks st
            \<and> st_task_id st' = st_task_id st
            \<and> st_task_description st' = st_task_description st)"
proof -
  have keep: "run_sends env as s = Inr s' \<Longrightarrow>
      tasks s' = tasks s \<and> st_task_id s' = st_task_id s
      \<and> st_task_description s' = st_task_description s" for as s s'
  proof (induction as arbitrary: s)
    case Nil
    then show ?case by simp
  next
    case (Cons a as)
    from execute_search_command [of "provider env" "loader env" a] obtain logs rs where
      "execute_search (provider env) (loader env) a = (logs, Inr (search_results_command rs))"
      by blast
    with Cons show ?case
      by (simp add: search_results_command_def apply_update_def no_update_def)
  qed
  have fan: "t'' = Goto Generate_task_result \<and> tasks s'' = tasks s
      \<and> st_task_id s'' = st_task_id s \<and> st_task_description s'' = st_task_description s"
    if "fan_out env as s = Next t'' s''" for as s t'' s''
    using that keep [of as s s'']
    by (auto simp: fan_out_def split: if_splits sum.splits)
  show ?thesis
  proof (cases t)
    case (Sends args)
    with assms fan [of args st t' st'] show ?thesis by simp
  next
    case (Goto n)
    show ?thesis
    proof (cases n)
      case Generate_search_queries
      with Goto assms show ?thesis
        by (auto simp: follow_def generate_search_queries_def apply_update_def no_update_def
              split: sum.splits if_splits)
    next
      case Execute_search
      with Goto assms fan [of "[None]" st t' st'] show ?thesis by simp
    next
      case Generate_task_result
      with Goto assms show ?thesis
        by (auto simp: follow_def generate_task_result_def apply_update_def no_update_def
              split: sum.splits)
    next
      case Evaluate_task_result
      with Goto assms show ?thesis
        by (auto simp: follow_def evaluate_task_result_def apply_update_def no_update_def Let_def
              split: sum.splits if_splits)
    next
      case END
      with Goto assms show ?thesis by simp
    qed
  qed
qed

lemma run_publishes:
  assumes "t \<noteq> Goto END" and "t \<noteq> Sends []"
      and "snd (run_websearch env t st) = Inr s'"
  shows "\<exists>res. tasks s' = update_task (tasks st)
           (Some [\<lparr>task_id = get_task_id st, task_description = get_task_description st,
                   task_result = Some res\<rparr>])"
  using assms
proof (induction env t st rule: run_websearch.induct)
  case (1 env t st)
  show ?case
  proof (cases "step env t st")
    case (Halt r)
    with step_halt [OF Halt] "1.prems" show ?thesis
      by (auto simp: run_unfold_halt)
  next
    case (Next t' st')
    from "1.prems"(3) have r: "snd (run_websearch env t' st') = Inr s'"
      by (simp add: run_unfold_next [OF Next])
    from step_keeps_task [OF Next] show ?thesis
    proof (elim disjE conjE)
      assume e: "t' = Goto END" and
        ts: "tasks st' = update_task (tasks st)
                 (Some [\<lparr>task_id = get_task_id st, task_description = get_task_description st,
                         task_result = Some (get_task_result st)\<rparr>])"
      have "step env (Goto END) st' = Halt (Inr st')" by simp
      from run_unfold_halt [OF this] r e have "s' = st'" by simp
      with ts show ?thesis by blast
    next
      assume k: "t' \<noteq> Goto END" "t' \<noteq> Sends []" "tasks st' = tasks st"
        "st_task_id st' = st_task_id st" "st_task_description st' = st_task_description st"
      from "1.IH" [OF Next k(1,2) r] k(3,4,5) show ?thesis
        by (simp add: get_task_id_def get_task_description_def)
    qed
  qed
qed


lemma step_keeps_base:
  assumes "step env t st = Next t' st'"
  shows "messages st' = messages st \<and> final_answer st' = final_answer st"
proof -
  have keep: "run_sends env as s = Inr s' \<Longrightarrow>
      messages s' = messages s \<and> final_answer s' = final_answer s" for as s s'
  proof (induction as arbitrary: s)
    case Nil
    then show ?case by simp
  next
    case (Cons a as)
    then show ?case
      by (auto simp: apply_update_def split: sum.splits)
  qed
  have fan: "messages s'' = messages s \<and> final_answer s'' = final_answer s"
    if "fan_out env as s = Next t'' s''" for as s t'' s''
    using that keep [of as s s'']
    by (auto simp: fan_out_def split: if_splits sum.splits)
  show ?thesis
  proof (cases t)
    case (Sends args)
    with assms fan [of args st t' st'] show ?thesis by simp
  next
    case (Goto n)
    show ?thesis
    proof (cases n)
      case Execute_search
      with Goto assms fan [of "[None]" st t' st'] show ?thesis by simp
    qed (use Goto assms in \<open>auto simp: follow_def apply_update_def split: sum.splits\<close>)
  qed
qed

lemma run_keeps_base:
  assumes "snd (run_websearch env t st) = Inr s'"
  shows "messages s' = messages st \<and> final_answer s' = final_answer st"
  using assms
proof (induction env t st rule: run_websearch.induct)
  case (1 env t st)
  show ?case
  proof (cases "step env t st")
    case (Halt r)
    with step_halt [OF Halt] "1.prems" show ?thesis
      by (auto simp: run_unfold_halt)
  next
    case (Next t' st')
    from "1.prems" have "snd (run_websearch env t' st') = Inr s'"
      by (simp add: run_unfold_next [OF Next])
    from "1.IH" [OF Next this] step_keeps_base [OF Next] show ?thesis by simp
  qed
qed

lemma subtask_publishes:
  assumes "snd (run_websearch env (Goto Generate_search_queries) (websearch_start inp)) = Inr final"
  shows "\<exists>res. tasks final = [\<lparr>task_id = in_task_id inp,
                                task_description = in_task_description inp,
                                task_result = Some res\<rparr>]"
    and "messages final = []" and "final_answer final = None"
proof -
  from run_publishes [OF _ _ assms]
  show "\<exists>res. tasks final = [\<lparr>task_id = in_task_id inp,
                                task_description = in_task_description inp,
                                task_result = Some res\<rparr>]"
    by (simp add: websearch_start_def get_task_id_def get_task_description_def update_task_def)
  from run_keeps_base [OF assms]
  show "messages final = []" and "final_answer final = None"
    by (simp_all add: websearch_start_def)
qed

lemma fold_update_task:
  assumes "map task_id ps = map task_id ts" and "distinct (map task_id (ts @ dn))"
  shows "foldl (\<lambda>acc p. update_task acc (Some [p])) (ts @ dn) ps = dn @ ps"
  using assms
proof (induction ps arbitrary: ts dn)
  case Nil
  then show ?case by simp
next
  case (Cons p ps)
  from Cons.prems(1) obtain t tr where ts: "ts = t # tr" and id: "task_id t = task_id p"
    and rest: "map task_id ps = map task_id tr"
    by (cases ts) auto
  from Cons.prems(2) ts id have "task_id p \<notin> task_id ` set (tr @ dn)"
    by auto
  then have nin: "\<forall>x \<in> set (tr @ dn). task_id x \<noteq> task_id p"
    by (metis imageI)
  then have "filter (\<lambda>x. task_id x \<noteq> task_id p) (tr @ dn) = tr @ dn"
    by (simp only: filter_id_conv)
  with id ts have upd: "update_task (ts @ dn) (Some [p]) = tr @ (dn @ [p])"
    by (simp add: update_task_def)
  from Cons.prems(2) ts id nin have "distinct (map task_id (tr @ (dn @ [p])))"
    by auto
  from Cons.IH [OF rest this] upd show ?case by simp
qed

lemma run_subtasks_fold:
  assumes "run_subtasks env inps st = Inr st'"
  shows "\<exists>ps. list_all2 (\<lambda>inp p. task_id p = in_task_id inp
                    \<and> task_description p = in_task_description inp
                    \<and> task_result p \<noteq> None) inps ps
            \<and> tasks st' = foldl (\<lambda>acc p. update_task acc (Some [p])) (tasks st) ps
            \<and> messages st' = messages st \<and> final_answer st' = final_answer st"
  using assms
proof (induction inps arbitrary: st)
  case Nil
  then show ?case by simp
next
  case (Cons inp inps)
  from Cons.prems obtain final where
    f: "snd (run_websearch env (Goto Generate_search_queries) (websearch_start inp)) = Inr final"
    by (auto split: sum.splits)
  from subtask_publishes [OF f] obtain res where
    t: "tasks final = [\<lparr>task_id = in_task_id inp, task_description = in_task_description inp,
                       task_result = Some res\<rparr>]"
    and m: "messages final = []" and a: "final_answer final = None"
    by blast
  let ?p = "\<lparr>task_id = in_task_id inp, task_description = in_task_description inp,
             task_result = Some res\<rparr>"
  let ?st1 = "apply_planner_update st
               \<lparr>p_messages = Some (messages final), p_tasks = Some (tasks final),
                p_final_answer = final_answer final\<rparr>"
  have st1: "tasks ?st1 = update_task (tasks st) (Some [?p])" "messages ?st1 = messages st"
    "final_answer ?st1 = final_answer st"
    by (simp_all add: apply_planner_update_def t m a)
  from Cons.prems f have "run_subtasks env inps ?st1 = Inr st'"
    by simp
  from Cons.IH [OF this] obtain ps where
    ps: "list_all2 (\<lambda>inp p. task_id p = in_task_id inp
                    \<and> task_description p = in_task_description inp
                    \<and> task_result p \<noteq> None) inps ps"
    and ts: "tasks st' = foldl (\<lambda>acc p. update_task acc (Some [p])) (tasks ?st1) ps"
    and ms: "messages st' = messages ?st1" "final_answer st' = final_answer ?st1"
    by blast
  from ps have "list_all2 (\<lambda>inp p. task_id p = in_task_id inp
                    \<and> task_description p = in_task_description inp
                    \<and> task_result p \<noteq> None) (inp # inps) (?p # ps)"
    by simp
  moreover have "tasks st' = foldl (\<lambda>acc p. update_task acc (Some [p])) (tasks st) (?p # ps)"
    by (simp add: ts st1)
  moreover have "messages st' = messages st" "final_answer st' = final_answer st"
    by (simp_all add: ms st1)
  ultimately show ?case
    by blast
qed


lemma plan_tasks_command:
  assumes "planner_model (messages state) = Inr plan" and "plan_tasks_of plan \<noteq> []"
  shows "snd (plan_tasks planner_model state) =
           Inr \<lparr>p_update = \<lparr>p_messages = None,
                    p_tasks = Some (map (\<lambda>(idx, d). \<lparr>task_id = str idx, task_description = d,
                                                       task_result = None\<rparr>)
                                      (enumerate 0 (plan_tasks_of plan))),
                    p_final_answer = None\<rparr>,
                 p_goto = Websearch_sends
                    (map (\<lambda>(idx, d). \<lparr>in_task_id = str idx, in_task_description = d,
                                        in_attempt = 0, in_completed = False\<rparr>)
                       (enumerate 0 (plan_tasks_of plan)))\<rparr>"
  using assms by (simp add: plan_tasks_def del: str.simps)

lemma subtasks_succeed:
  assumes "\<forall>s. \<exists>x. queries_model env s = Inr x" and "\<forall>s. \<exists>x. answer_model env s = Inr x"
      and "\<forall>s. \<exists>x. evaluation_model env s = Inr x"
      and "\<forall>inp \<in> set inps. in_attempt inp = 0"
  shows "\<exists>st'. run_subtasks env inps st = Inr st'"
  using assms(4)
proof (induction inps arbitrary: st)
  case Nil
  then show ?case by simp
next
  case (Cons inp inps)
  have "attempt (websearch_start inp) = Some 0"
    using Cons.prems by (simp add: websearch_start_def)
  from run_invariant [OF this, of "Goto Generate_search_queries" env] assms(1-3)
  obtain final where
    "snd (run_websearch env (Goto Generate_search_queries) (websearch_start inp)) = Inr final"
    by auto
  with Cons show ?case by simp
qed

text \<open>
  The whole graph, from a state without tasks whose message history is not empty, when
  the planner returns a plan. An empty plan ends the run with the exception of
  \<open>plan_tasks\<close>: no sub-graph runs and there is no synthesis. For a plan with \<open>N \<ge> 1\<close>
  descriptions, a run that ends without an exception ends with exactly \<open>N\<close> tasks in
  the merged list, in the order of the plan, with the ids \<open>str(0)\<close>, ..., \<open>str(N - 1)\<close>
  (no duplicates), each with a result, and with a final answer; and when no model call
  raises, the run does end without an exception, so synthesis never fails on a missing
  result or an empty history.
\<close>

theorem graph_run_merges_every_result:
  assumes "tasks state = []" and "messages state \<noteq> []"
      and "planner_model (messages state) = Inr plan"
  shows "(plan_tasks_of plan = [] \<longrightarrow>
            run_graph planner_model env answer_model' state = Inl RuntimeError)
       \<and> (plan_tasks_of plan \<noteq> [] \<longrightarrow>
            (\<forall>final. run_graph planner_model env answer_model' state = Inr final \<longrightarrow>
               map task_id (tasks final) = map str [0..<length (plan_tasks_of plan)]
             \<and> distinct (map task_id (tasks final))
             \<and> map task_description (tasks final) = plan_tasks_of plan
             \<and> (\<forall>t \<in> set (tasks final). task_result t \<noteq> None)
             \<and> final_answer final \<noteq> None)
          \<and> ((\<forall>s. \<exists>x. queries_model env s = Inr x) \<and> (\<forall>s. \<exists>x. answer_model env s = Inr x)
               \<and> (\<forall>s. \<exists>x. evaluation_model env s = Inr x)
               \<and> (\<forall>p. \<exists>x. answer_model' p = Inr x)
               \<longrightarrow> (\<exists>final. run_graph planner_model env answer_model' state = Inr final)))"
proof (intro conjI impI)
  assume "plan_tasks_of plan = []"
  with assms(3) show "run_graph planner_model env answer_model' state = Inl RuntimeError"
    by (simp add: run_graph_def plan_tasks_def)
next
  assume ne: "plan_tasks_of plan \<noteq> []"
  let ?ds = "plan_tasks_of plan"
  let ?ts = "map (\<lambda>(idx, d). \<lparr>task_id = str idx, task_description = d, task_result = None\<rparr>)
               (enumerate 0 ?ds)"
  let ?ss = "map (\<lambda>(idx, d). \<lparr>in_task_id = str idx, in_task_description = d,
                                in_attempt = 0, in_completed = False\<rparr>) (enumerate 0 ?ds)"
  let ?st1 = "apply_planner_update state
                \<lparr>p_messages = None, p_tasks = Some ?ts, p_final_answer = None\<rparr>"
  have cmd: "snd (plan_tasks planner_model state) =
           Inr \<lparr>p_update = \<lparr>p_messages = None, p_tasks = Some ?ts, p_final_answer = None\<rparr>,
                 p_goto = Websearch_sends ?ss\<rparr>"
    using plan_tasks_command [of planner_model state plan] assms(3) ne by simp
  have en: "enumerate 0 ?ds \<noteq> []"
    using ne by (cases ?ds) simp_all
  have ss_ne: "?ss \<noteq> []" using en by simp
  have ts_ne: "?ts \<noteq> []" using en by simp
  have st1: "tasks ?st1 = ?ts" "messages ?st1 = messages state"
    using assms(1) ts_ne
    by (simp_all add: apply_planner_update_def update_task_nonempty del: str.simps)
  have run: "run_graph planner_model env answer_model' state =
               (case run_subtasks env ?ss ?st1 of
                  Inl e \<Rightarrow> Inl e
                | Inr st2 \<Rightarrow>
                    (case snd (generate_final_answer answer_model' st2) of
                       Inl e \<Rightarrow> Inl e
                     | Inr cmd' \<Rightarrow> Inr (apply_planner_update st2 (p_update cmd'))))"
    using ss_ne by (simp add: run_graph_def cmd del: str.simps)
  have ids_ts: "map task_id ?ts = map str [0..<length ?ds]"
  proof -
    have "map task_id ?ts = map (str \<circ> fst) (enumerate 0 ?ds)"
      by (simp add: case_prod_unfold comp_def del: str.simps)
    also have "\<dots> = map str (map fst (enumerate 0 ?ds))"
      by (simp only: map_map)
    also have "\<dots> = map str [0..<length ?ds]"
      by (simp only: map_fst_enumerate add_0)
    finally show ?thesis .
  qed
  have ids_ss: "map in_task_id ?ss = map task_id ?ts"
    by (simp add: case_prod_unfold comp_def del: str.simps)
  have "map in_task_description ?ss = map snd (enumerate 0 ?ds)"
    by (simp add: case_prod_unfold comp_def del: str.simps)
  then have ds_ss: "map in_task_description ?ss = ?ds"
    by (simp only: map_snd_enumerate)
  have merged: "tasks st2 = ps \<and> map task_id ps = map str [0..<length ?ds]
      \<and> map task_description ps = ?ds \<and> (\<forall>t \<in> set ps. task_result t \<noteq> None)
      \<and> messages st2 = messages state"
    if "run_subtasks env ?ss ?st1 = Inr st2"
      and "list_all2 (\<lambda>inp p. task_id p = in_task_id inp
                    \<and> task_description p = in_task_description inp
                    \<and> task_result p \<noteq> None) ?ss ps"
      and "tasks st2 = foldl (\<lambda>acc p. update_task acc (Some [p])) (tasks ?st1) ps"
      and "messages st2 = messages ?st1"
    for st2 ps
  proof -
    from that(2) have ids: "map task_id ps = map in_task_id ?ss"
      and descs: "map task_description ps = map in_task_description ?ss"
      and res: "\<forall>t \<in> set ps. task_result t \<noteq> None"
      by (auto simp: list_all2_conv_all_nth list_eq_iff_nth_eq in_set_conv_nth simp del: str.simps)
    from ids ids_ss have i1: "map task_id ps = map task_id ?ts" by simp
    have "distinct (map task_id (?ts @ []))"
      by (simp only: append_Nil2 ids_ts distinct_str_upt)
    from fold_update_task [OF i1 this] that(3) st1(1) have "tasks st2 = ps"
      by simp
    with i1 ids_ts descs ds_ss res that(4) st1(2) show ?thesis by simp
  qed
  show "\<forall>final. run_graph planner_model env answer_model' state = Inr final \<longrightarrow>
               map task_id (tasks final) = map str [0..<length (plan_tasks_of plan)]
             \<and> distinct (map task_id (tasks final))
             \<and> map task_description (tasks final) = plan_tasks_of plan
             \<and> (\<forall>t \<in> set (tasks final). task_result t \<noteq> None)
             \<and> final_answer final \<noteq> None"
  proof (intro allI impI)
    fix final
    assume fin: "run_graph planner_model env answer_model' state = Inr final"
    with run obtain st2 cmd' where
      sub: "run_subtasks env ?ss ?st1 = Inr st2" and
      syn: "snd (generate_final_answer answer_model' st2) = Inr cmd'" and
      final: "final = apply_planner_update st2 (p_update cmd')"
      by (auto split: sum.splits)
    from run_subtasks_fold [OF sub] merged [OF sub] obtain ps where
      m: "tasks st2 = ps" "map task_id ps = map str [0..<length ?ds]"
         "map task_description ps = ?ds" "\<forall>t \<in> set ps. task_result t \<noteq> None"
      by blast
    from syn obtain response where
      upd: "p_update cmd' = \<lparr>p_messages = Some [AIMessage response], p_tasks = None,
                             p_final_answer = Some response\<rparr>"
      by (auto simp: generate_final_answer_def Let_def
            split: if_splits sum.splits list.splits)
    from final upd have "tasks final = tasks st2" "final_answer final = Some response"
      by (simp_all add: apply_planner_update_def)
    with m show "map task_id (tasks final) = map str [0..<length (plan_tasks_of plan)]
             \<and> distinct (map task_id (tasks final))
             \<and> map task_description (tasks final) = plan_tasks_of plan
             \<and> (\<forall>t \<in> set (tasks final). task_result t \<noteq> None)
             \<and> final_answer final \<noteq> None"
      by (simp add: distinct_str_upt del: str.simps)
  qed
  show "\<exists>final. run_graph planner_model env answer_model' state = Inr final"
    if tot: "(\<forall>s. \<exists>x. queries_model env s = Inr x) \<and> (\<forall>s. \<exists>x. answer_model env s = Inr x)
               \<and> (\<forall>s. \<exists>x. evaluation_model env s = Inr x)
               \<and> (\<forall>p. \<exists>x. answer_model' p = Inr x)"
  proof -
    have "\<forall>inp \<in> set ?ss. in_attempt inp = 0"
      by (auto simp del: str.simps)
    with tot subtasks_succeed [of env ?ss ?st1] obtain st2 where
      sub: "run_subtasks env ?ss ?st1 = Inr st2"
      by blast
    from run_subtasks_fold [OF sub] merged [OF sub] obtain ps where
      m: "tasks st2 = ps" "map task_id ps = map str [0..<length ?ds]"
         "\<forall>t \<in> set ps. task_result t \<noteq> None" "messages st2 = messages state"
      by blast
    from m(1,2) ne have t_ne: "tasks st2 \<noteq> []"
      by (auto simp del: str.simps)
    from m(1,3) have "\<forall>t \<in> set (tasks st2). task_result t \<noteq> None" by simp
    from task_results_text_Inr [OF this] obtain text' where
      tx: "task_results_text (tasks st2) = Inr text'" by blast
    from m(4) assms(2) have "messages st2 \<noteq> []" by simp
    then obtain msg ms where ms: "messages st2 = msg # ms"
      by (auto simp: neq_Nil_conv)
    from tot obtain response where
      "answer_model' (final_answer_prompt (message_content msg) text') = Inr response"
      by blast
    with t_ne tx ms have "\<exists>cmd'. snd (generate_final_answer answer_model' st2) = Inr cmd'"
      by (simp add: generate_final_answer_def)
    with run sub show ?thesis by auto
  qed
qed

end
